theory Spec2Isabelle
  imports Complex_Main "HOL-Library.Sublist" "HOL-Library.AList"
begin

section \<open>Python strings\<close>

text \<open>
  A Python \<open>str\<close> is a sequence of Unicode code points, and \<open>len\<close> counts code points.
  The model is a list of code points (natural numbers); ASCII literals of the source are
  written through \<open>lit\<close>, other literals as explicit code points.
\<close>

type_synonym pstr = "nat list"

definition lit :: "string \<Rightarrow> pstr" where
  "lit s = map of_char s"

text \<open>The blank-line pair \<open>'\n\n'\<close> and the table separator marker \<open>'| ---'\<close>.\<close>

definition blank_pair :: pstr where
  "blank_pair = [10, 10]"

definition table_marker :: pstr where
  "table_marker = [124, 32, 45, 45, 45]"

text \<open>\<open>sub in s\<close> for strings.\<close>

fun contains :: "pstr \<Rightarrow> pstr \<Rightarrow> bool" where
  "contains sub [] = (sub = [])"
| "contains sub (c # s) = (prefix sub (c # s) \<or> contains sub s)"

text \<open>\<open>s.replace('\r\n', '\n')\<close> and \<open>s.replace('\r', '\n')\<close>: left to right, non-overlapping.\<close>

fun replace_crlf :: "pstr \<Rightarrow> pstr" where
  "replace_crlf (a # b # s) =
     (if a = 13 \<and> b = 10 then 10 # replace_crlf s else a # replace_crlf (b # s))"
| "replace_crlf s = s"

definition replace_cr :: "pstr \<Rightarrow> pstr" where
  "replace_cr s = map (\<lambda>c. if c = 13 then 10 else c) s"

definition normalize_newlines :: "pstr \<Rightarrow> pstr" where
  "normalize_newlines s = replace_cr (replace_crlf s)"

text \<open>\<open>s.count('\n')\<close>.\<close>

definition count_newlines :: "pstr \<Rightarrow> nat" where
  "count_newlines s = length (filter (\<lambda>c. c = 10) s)"

text \<open>
  \<open>str.isspace\<close> on one code point, and \<open>s.strip()\<close>: the characters Python treats
  as whitespace.
\<close>

definition is_space :: "nat \<Rightarrow> bool" where
  "is_space c = (c \<in> set [9, 10, 11, 12, 13, 28, 29, 30, 31, 32, 133, 160, 5760,
                           8192, 8193, 8194, 8195, 8196, 8197, 8198, 8199, 8200, 8201, 8202,
                           8232, 8233, 8239, 8287, 12288])"

definition strip :: "pstr \<Rightarrow> pstr" where
  "strip s = rev (dropWhile is_space (rev (dropWhile is_space s)))"

text \<open>
  \<open>s.split(sep, 1)\<close> for a non-empty separator: \<open>None\<close> when the separator does not
  occur (Python returns the one-element list \<open>[s]\<close>), otherwise the text before and after
  the first occurrence.
\<close>

fun split1 :: "pstr \<Rightarrow> pstr \<Rightarrow> (pstr \<times> pstr) option" where
  "split1 sep [] = None"
| "split1 sep (c # s) =
     (if prefix sep (c # s) then Some ([], drop (length sep) (c # s))
      else (case split1 sep s of None \<Rightarrow> None | Some (p, q) \<Rightarrow> Some (c # p, q)))"

section \<open>StreamingContentBuffer\<close>

text \<open>
  One call of the streaming callback: the dictionary passed to it (its \<open>type\<close> field is the
  constant \<open>plan_content_chunk\<close>).
\<close>

record chunk =
  content :: pstr
  accumulated_content :: pstr
  is_table :: bool

text \<open>
  The object's fields. \<open>has_callback\<close> says whether \<open>streaming_callback\<close> is not
  \<open>None\<close>; \<open>emitted\<close> is the log of the calls made to the callback, oldest first;
  \<open>clock_reads\<close> counts the calls of \<open>time.time()\<close> made so far, whose results are given
  by a function from the call number to the time read.
\<close>

record buffer_state =
  min_chunk_size :: int
  max_buffer_time :: real
  has_callback :: bool
  buffer :: pstr
  full_content :: pstr
  last_send_time :: real
  chunk_count :: nat
  in_table :: bool
  table_buffer :: pstr
  table_line_count :: nat
  emitted :: "chunk list"
  clock_reads :: nat

definition new_buffer :: "(nat \<Rightarrow> real) \<Rightarrow> int \<Rightarrow> real \<Rightarrow> bool \<Rightarrow> buffer_state" where
  "new_buffer clk mcs mbt cb =
     \<lparr>min_chunk_size = mcs, max_buffer_time = mbt, has_callback = cb,
      buffer = [], full_content = [], last_send_time = clk 0, chunk_count = 0,
      in_table = False, table_buffer = [], table_line_count = 0,
      emitted = [], clock_reads = 1\<rparr>"

definition send_table :: "buffer_state \<Rightarrow> buffer_state" where
  "send_table st =
     (if table_buffer st \<noteq> [] \<and> has_callback st then
        st\<lparr>emitted := emitted st @
               [\<lparr>content = table_buffer st, accumulated_content = full_content st,
                 is_table = True\<rparr>],
           table_buffer := [],
           table_line_count := 0\<rparr>
      else st)"

definition send_buffer :: "(nat \<Rightarrow> real) \<Rightarrow> buffer_state \<Rightarrow> buffer_state" where
  "send_buffer clk st =
     (if buffer st \<noteq> [] \<and> has_callback st then
        st\<lparr>emitted := emitted st @
               [\<lparr>content = buffer st, accumulated_content = full_content st,
                 is_table = False\<rparr>],
           buffer := [],
           last_send_time := clk (clock_reads st),
           clock_reads := clock_reads st + 1,
           chunk_count := 0\<rparr>
      else st)"

definition add_content :: "(nat \<Rightarrow> real) \<Rightarrow> pstr \<Rightarrow> buffer_state \<Rightarrow> buffer_state" where
  "add_content clk content_chunk0 st0 =
     (let content_chunk = normalize_newlines content_chunk0;
          st = st0\<lparr>full_content := full_content st0 @ content_chunk\<rparr>
      in
      if contains table_marker content_chunk \<and> \<not> in_table st then
        (let st1 = st\<lparr>in_table := True\<rparr>;
             st2 = (if buffer st1 \<noteq> [] then send_buffer clk st1 else st1)
         in st2\<lparr>table_buffer := buffer st2 @ content_chunk,
                buffer := [],
                table_line_count := count_newlines content_chunk\<rparr>)
      else if in_table st then
        (let st1 = st\<lparr>table_buffer := table_buffer st @ content_chunk,
                       table_line_count := table_line_count st + count_newlines content_chunk\<rparr>
         in
         if contains blank_pair (table_buffer st1) \<or>
            (contains [10] content_chunk \<and>
             \<not> prefix [124] (strip content_chunk) \<and>
             table_line_count st1 \<ge> 3) then
           (let st2 = send_table (st1\<lparr>in_table := False\<rparr>)
            in (case split1 blank_pair content_chunk of
                  Some (before, rest) \<Rightarrow> st2\<lparr>buffer := blank_pair @ rest\<rparr>
                | None \<Rightarrow> st2))
         else st1)
      else
        (let st1 = st\<lparr>buffer := buffer st @ content_chunk,
                       chunk_count := chunk_count st + 1\<rparr>;
             current_time = clk (clock_reads st1);
             st2 = st1\<lparr>clock_reads := clock_reads st1 + 1\<rparr>;
             time_since_last_send = current_time - last_send_time st2;
             should_send =
               (int (length (buffer st2)) \<ge> min_chunk_size st2 \<or>
                time_since_last_send \<ge> max_buffer_time st2 \<or>
                contains blank_pair (buffer st2) \<or>
                chunk_count st2 \<ge> 10)
         in if should_send then send_buffer clk st2 else st2))"

definition flush :: "(nat \<Rightarrow> real) \<Rightarrow> buffer_state \<Rightarrow> buffer_state" where
  "flush clk st =
     (let st1 = (if table_buffer st \<noteq> [] then send_table st else st)
      in if buffer st1 \<noteq> [] then send_buffer clk st1 else st1)"

text \<open>Feeding a sequence of fragments, one \<open>add_content\<close> call each, in order.\<close>

fun feed :: "(nat \<Rightarrow> real) \<Rightarrow> pstr list \<Rightarrow> buffer_state \<Rightarrow> buffer_state" where
  "feed clk [] st = st"
| "feed clk (f # fs) st = feed clk fs (add_content clk f st)"

text \<open>The concatenation of the \<open>content\<close> fields of the chunks passed to the callback.\<close>

definition emitted_text :: "buffer_state \<Rightarrow> pstr" where
  "emitted_text st = concat (map content (emitted st))"


text \<open>
  Predicates used to state the properties of the buffer. \<open>nonempty_chunks\<close>: every chunk
  passed to the callback so far has non-empty content. \<open>buffers_exclusive\<close>: with a
  callback, the ordinary buffer is empty in table mode and the table buffer is empty outside
  it. \<open>held_text\<close>: what has been emitted followed by what the two buffers still hold.
\<close>

definition nonempty_chunks :: "buffer_state \<Rightarrow> bool" where
  "nonempty_chunks st = (\<forall>c \<in> set (emitted st). content c \<noteq> [])"




text \<open>
  A run through table mode: an ordinary fragment ending in \<open>\r\n\<close>, a table separator row,
  a table row, a non-table line that closes the table, and a tail.
\<close>

definition table_run :: "pstr list" where
  "table_run = [lit ''ab'' @ [13, 10], lit ''| --- |'' @ [10], lit ''| 1 |'' @ [10],
                lit ''x'' @ [10], lit ''tail'']"

section \<open>call_deepseek_streaming_api_buffered\<close>

text \<open>
  The HTTP response body arrives as a sequence of network chunks. Each chunk is decoded,
  stripped and split into lines, and each line is handled on its own. A line is one of:
  \<^item> \<open>Content c\<close>: a \<open>data:\<close> line whose JSON carries \<open>choices[0].delta.content = c\<close>;
  \<^item> \<open>Done\<close>: the line \<open>data: [DONE]\<close>, which leaves the loop over this chunk's lines;
  \<^item> \<open>Skip\<close>: a line that is ignored (no \<open>data:\<close> prefix, blank data, a JSON decode
    error, no choices or no content in the delta);
  \<^item> \<open>Fail\<close>: a line whose handling raises any other exception, which the handler around
    the chunk catches, abandoning the rest of the chunk.
  The callback itself is taken not to raise.
\<close>

datatype line_event = Content pstr | Done | Skip | Fail

text \<open>The pair is the local \<open>full_content\<close> and the buffer object.\<close>

fun process_lines :: "(nat \<Rightarrow> real) \<Rightarrow> line_event list \<Rightarrow> pstr \<times> buffer_state \<Rightarrow> pstr \<times> buffer_state" where
  "process_lines clk [] s = s"
| "process_lines clk (Content c # ls) (fc, st) = process_lines clk ls (fc @ c, add_content clk c st)"
| "process_lines clk (Done # ls) s = s"
| "process_lines clk (Skip # ls) s = process_lines clk ls s"
| "process_lines clk (Fail # ls) s = s"

text \<open>
  How the iteration over the response body ends: the body is exhausted, or the iteration
  raises \<open>asyncio.TimeoutError\<close>, \<open>asyncio.CancelledError\<close> (the task was cancelled) or
  another exception (a connection error, say).
\<close>

datatype stream_end = EndOfStream | StreamTimeout | StreamCancelled | StreamError

datatype api_result =
    Success pstr
  | RequestFailed nat
  | NoContent
  | ApiTimeout
  | OtherFailure
  | CancelledRaised

text \<open>
  The call creates its buffer with \<open>min_chunk_size=10\<close> and \<open>max_buffer_time=0.3\<close>. The
  literal \<open>0.3\<close> is a double: the binary fraction nearest to three tenths, which is
  \<open>5404319552844595 / 2^54\<close> and lies just below three tenths. The times read from the clock
  are doubles too, and the elapsed time is compared with this number.
\<close>

definition max_buffer_time_0_3 :: real where
  "max_buffer_time_0_3 = 5404319552844595 / 2 ^ 54"

text \<open>
  The call, given whether a callback is passed, the HTTP status, the network chunks received
  and the way the stream ends. The result is the returned dictionary (or the exception that
  leaves the function: \<open>CancelledError\<close> is not an \<open>Exception\<close> and no handler catches it)
  together with the buffer object as the call leaves it.
\<close>

definition call_deepseek_streaming_api_buffered ::
  "(nat \<Rightarrow> real) \<Rightarrow> bool \<Rightarrow> nat \<Rightarrow> line_event list list \<Rightarrow> stream_end \<Rightarrow> api_result \<times> buffer_state" where
  "call_deepseek_streaming_api_buffered clk cb status chunks ending =
     (let content_buffer = new_buffer clk 10 max_buffer_time_0_3 cb
      in if status \<noteq> 200 then (RequestFailed status, content_buffer)
         else
           (let (fc, st) = fold (process_lines clk) chunks ([], content_buffer)
            in (case ending of
                  EndOfStream \<Rightarrow>
                    (let st' = flush clk st
                     in (if fc \<noteq> [] then Success fc else NoContent, st'))
                | StreamTimeout \<Rightarrow> (ApiTimeout, st)
                | StreamError \<Rightarrow> (OtherFailure, st)
                | StreamCancelled \<Rightarrow> (CancelledRaised, st))))"

text \<open>
  The chunks that the content held in a buffer makes when it is sent: the table buffer, if not
  empty, as a table chunk, then the ordinary buffer, if not empty, as an ordinary chunk.
\<close>

definition held_chunks :: "buffer_state \<Rightarrow> chunk list" where
  "held_chunks st =
     (if table_buffer st \<noteq> [] then
        [\<lparr>content = table_buffer st, accumulated_content = full_content st, is_table = True\<rparr>]
      else []) @
     (if buffer st \<noteq> [] then
        [\<lparr>content = buffer st, accumulated_content = full_content st, is_table = False\<rparr>]
      else [])"

text \<open>Nothing is held back: both buffers are empty.\<close>

definition nothing_held :: "buffer_state \<Rightarrow> bool" where
  "nothing_held st = (buffer st = [] \<and> table_buffer st = [])"

section \<open>ParameterUncertaintyCalculator\<close>

text \<open>
  Numbers are Python floats in the source; the model computes with exact reals. The weights
  and the threshold are the decimal literals of \<open>__init__\<close>.
\<close>

record weights =
  knowledge_base :: real
  web_search :: real
  llm_judgment :: real

definition calculator_weights :: weights where
  "calculator_weights = \<lparr>knowledge_base = 2 / 10, web_search = 3 / 10, llm_judgment = 5 / 10\<rparr>"

definition threshold :: real where
  "threshold = 5 / 10"

text \<open>
  The vocabulary file: the professional terms with their keywords and the synonyms with
  their main terms, each in the order of the file. The file itself is data, not code, and is
  a parameter of the model.
\<close>

record vocabulary =
  professional_terms :: "(pstr \<times> pstr list) list"
  synonyms :: "(pstr \<times> pstr list) list"

text \<open>
  What the calculator consults: the vocabulary, \<open>str.lower\<close>, and the two remote checks
  \<open>_check_web_search\<close> and \<open>_check_llm_professional\<close>, each of which catches its own
  exceptions and returns a boolean.
\<close>

record calculator_env =
  vocab :: vocabulary
  lower :: "pstr \<Rightarrow> pstr"
  check_web_search :: "pstr \<Rightarrow> bool"
  check_llm_professional :: "pstr \<Rightarrow> bool"

fun check_keywords :: "(pstr \<Rightarrow> pstr) \<Rightarrow> pstr \<Rightarrow> pstr list \<Rightarrow> pstr option" where
  "check_keywords lw target_text [] = None"
| "check_keywords lw target_text (keyword # ks) =
     (if contains keyword target_text \<or> contains (lw keyword) (lw target_text) then Some keyword
      else check_keywords lw target_text ks)"

text \<open>
  When a keyword matched, the matched term is reported as the term followed by the keyword in
  parentheses, after the label U+5173 U+952E U+8BCD ("keyword") and a colon.
\<close>

fun check_terms :: "(pstr \<Rightarrow> pstr) \<Rightarrow> pstr \<Rightarrow> (pstr \<times> pstr list) list \<Rightarrow> pstr list option" where
  "check_terms lw target_text [] = None"
| "check_terms lw target_text ((term, keywords) # rest) =
     (if contains term target_text \<or> contains (lw term) (lw target_text) then Some [term]
      else (case check_keywords lw target_text keywords of
              Some keyword \<Rightarrow> Some [term @ [40, 20851, 38190, 35789, 58] @ keyword @ [41]]
            | None \<Rightarrow> check_terms lw target_text rest))"

fun check_synonyms :: "(pstr \<Rightarrow> pstr) \<Rightarrow> pstr \<Rightarrow> (pstr \<times> pstr list) list \<Rightarrow> pstr list option" where
  "check_synonyms lw target_text [] = None"
| "check_synonyms lw target_text ((synonym, main_terms) # rest) =
     (if contains synonym target_text \<or> contains (lw synonym) (lw target_text) then Some main_terms
      else check_synonyms lw target_text rest)"

definition check_knowledge_base :: "calculator_env \<Rightarrow> pstr \<Rightarrow> bool \<times> pstr list" where
  "check_knowledge_base env target_text =
     (case check_terms (lower env) target_text (professional_terms (vocab env)) of
        Some matched \<Rightarrow> (True, matched)
      | None \<Rightarrow>
          (case check_synonyms (lower env) target_text (synonyms (vocab env)) of
             Some matched \<Rightarrow> (True, matched)
           | None \<Rightarrow> (False, [])))"

text \<open>\<open>round(x, 2)\<close>: to two decimals, a tie going to the even neighbour.\<close>

definition round2 :: "real \<Rightarrow> real" where
  "round2 x =
     (let y = x * 100; f = \<lfloor>y\<rfloor>; d = y - of_int f
      in of_int (if d < 1 / 2 then f else if d > 1 / 2 then f + 1
                 else if even f then f else f + 1) / 100)"

datatype confidence = High | Medium | Low | NoConfidence

record uncertainty_result =
  uncertainty_score :: real
  needs_clarification :: bool

record target_uncertainty = uncertainty_result +
  existence :: bool
  knowledge_base_match :: bool
  web_search_match :: bool
  llm_professional :: bool
  matched_terms :: "pstr list"
  confidence_level :: confidence
  clarity_score :: "real option"

text \<open>\<open>not target_text or not target_text.strip()\<close>, for an optional string.\<close>

definition missing_text :: "pstr option \<Rightarrow> bool" where
  "missing_text t = (case t of None \<Rightarrow> True | Some s \<Rightarrow> s = [] \<or> strip s = [])"

definition calculate_monitoring_target_uncertainty ::
  "calculator_env \<Rightarrow> pstr option \<Rightarrow> bool \<Rightarrow> bool \<Rightarrow> target_uncertainty" where
  "calculate_monitoring_target_uncertainty env target_text0 enable_web_search enable_llm =
     (if missing_text target_text0 then
        \<lparr>uncertainty_score = 1, needs_clarification = True,
         existence = False, knowledge_base_match = False, web_search_match = False,
         llm_professional = False, matched_terms = [], confidence_level = NoConfidence,
         clarity_score = None\<rparr>
      else
        (let target_text = strip (the target_text0);
             (kb_match, matched) = check_knowledge_base env target_text;
             web_match = (if enable_web_search then check_web_search env target_text else False);
             llm_prof = (if enable_llm then check_llm_professional env target_text else False);
             clarity =
               knowledge_base calculator_weights * (if kb_match then 1 else 0) +
               web_search calculator_weights * (if web_match then 1 else 0) +
               llm_judgment calculator_weights * (if llm_prof then 1 else 0);
             uncertainty = 1 - clarity;
             needs = (uncertainty > threshold);
             level = (if clarity \<ge> 7 / 10 then High
                      else if clarity \<ge> 4 / 10 then Medium else Low)
         in \<lparr>uncertainty_score = round2 uncertainty, needs_clarification = needs,
             existence = True, knowledge_base_match = kb_match, web_search_match = web_match,
             llm_professional = llm_prof, matched_terms = matched, confidence_level = level,
             clarity_score = Some (round2 clarity)\<rparr>))"

text \<open>
  The three signals of an existing candidate, as the calculator gathers them: a signal that
  is not enabled is false.
\<close>

definition kb_signal :: "calculator_env \<Rightarrow> pstr \<Rightarrow> bool" where
  "kb_signal env t = fst (check_knowledge_base env (strip t))"

definition web_signal :: "calculator_env \<Rightarrow> bool \<Rightarrow> pstr \<Rightarrow> bool" where
  "web_signal env enable_web_search t = (enable_web_search \<and> check_web_search env (strip t))"

definition llm_signal :: "calculator_env \<Rightarrow> bool \<Rightarrow> pstr \<Rightarrow> bool" where
  "llm_signal env enable_llm t = (enable_llm \<and> check_llm_professional env (strip t))"

definition indicator :: "bool \<Rightarrow> real" where
  "indicator b = (if b then 1 else 0)"

text \<open>
  Two concrete settings of the calculator's collaborators, used to exercise the theorems: a
  vocabulary with the single term U+6C34 U+8D28 ("water quality"), \<open>lower\<close> as the identity, and the remote
  checks answering with constants.
\<close>

definition water_vocabulary :: vocabulary where
  "water_vocabulary = \<lparr>professional_terms = [([27700, 36136], [])], synonyms = []\<rparr>"

definition env_web_only :: calculator_env where
  "env_web_only = \<lparr>vocab = water_vocabulary, lower = (\<lambda>s. s),
                    check_web_search = (\<lambda>_. True), check_llm_professional = (\<lambda>_. False)\<rparr>"

definition env_web_llm :: calculator_env where
  "env_web_llm = \<lparr>vocab = water_vocabulary, lower = (\<lambda>s. s),
                   check_web_search = (\<lambda>_. True), check_llm_professional = (\<lambda>_. True)\<rparr>"

text \<open>The candidate U+6C34 U+8D28 U+53D8 U+5316 ("change of water quality").\<close>

definition water_quality_change :: pstr where
  "water_quality_change = [27700, 36136, 21464, 21270]"

section \<open>The response parser\<close>

text \<open>
  \<open>s.split(sep)\<close> for a non-empty separator: the pieces between all occurrences, left to
  right.
\<close>

function py_split :: "pstr \<Rightarrow> pstr \<Rightarrow> pstr list" where
  "py_split sep s =
     (case split1 sep s of
        None \<Rightarrow> [s]
      | Some (p, q) \<Rightarrow> if sep = [] then [s] else p # py_split sep q)"
  by pat_completeness auto
termination
proof (relation "measure (\<lambda>(sep, s). length s)")
  show "wf (measure (\<lambda>(sep, s). length s))" by simp
next
  fix sep s :: pstr and x2 p q
  assume "split1 sep s = Some x2" and "(p, q) = x2" and "sep \<noteq> []"
  then have found: "split1 sep s = Some (p, q)" by simp
  have "split1 sep s = Some (p, q) \<Longrightarrow> length q < length s" for s p
  proof (induction s arbitrary: p)
    case Nil
    then show ?case by simp
  next
    case (Cons c s)
    show ?case
    proof (cases "prefix sep (c # s)")
      case True
      with Cons.prems have "q = drop (length sep) (c # s)" by simp
      with \<open>sep \<noteq> []\<close> show ?thesis by (cases sep) simp_all
    next
      case False
      with Cons.prems obtain p' where "split1 sep s = Some (p', q)"
        by (auto split: option.splits)
      from Cons.IH [OF this] show ?thesis by simp
    qed
  qed
  from this [OF found] show "((sep, q), (sep, s)) \<in> measure (\<lambda>(sep, s). length s)" by simp
qed

text \<open>
  A Python dictionary from strings to strings, in insertion order: \<open>d[k] = v\<close> is
  \<open>AList.update k v d\<close>, \<open>del d[k]\<close> is \<open>AList.delete k d\<close>, \<open>k in d\<close> is \<open>has_key k d\<close>
  and \<open>len(d)\<close> is the length of the list.
\<close>

type_synonym pdict = "(pstr \<times> pstr) list"

definition has_key :: "pstr \<Rightarrow> pdict \<Rightarrow> bool" where
  "has_key k d = (k \<in> set (map fst d))"

text \<open>
  An option of a question: a dictionary with \<open>value\<close> and \<open>label\<close>, or a bare string.
\<close>

datatype answer_option = DictOption pstr pstr | SimpleOption pstr

text \<open>
  A pending question, with the fields the parser reads: \<open>parameter_name\<close> may be missing,
  and missing \<open>options\<close> are the empty list.
\<close>

record question =
  parameter_key :: pstr
  parameter_name :: "pstr option"
  options :: "answer_option list"

text \<open>
  What the parser takes from libraries: \<open>str.lower\<close>; the search of the response for the
  pattern built around a parameter's name or key (\<open>name[:] value\<close>), giving the text of the
  first group when the pattern matches; and \<open>_extract_param_value_from_response\<close>, a table
  of regular expressions for each kind of parameter. The regular-expression engine is not
  modelled: the two searches are parameters, and the theorems hold for all of them.
\<close>

record parser_env =
  str_lower :: "pstr \<Rightarrow> pstr"
  search_marked :: "pstr \<Rightarrow> pstr \<Rightarrow> pstr option"
  extract_param_value :: "pstr \<Rightarrow> question \<Rightarrow> pstr option"

text \<open>
  The phrases that make the rule-based parser return nothing (``skip the technical
  parameters'', ``defaults for the technical parameters'', ``use the recommended
  parameters'', ``use the default values'').
\<close>

definition skip_words :: "pstr list" where
  "skip_words =
     [[36339, 36807, 25216, 26415, 21442, 25968],
      [25216, 26415, 21442, 25968, 29992, 40664, 35748],
      [20351, 29992, 25512, 33616, 21442, 25968],
      [20351, 29992, 40664, 35748, 20540]]"

text \<open>The first option of a question whose value or label occurs in the response.\<close>

definition match_option :: "pstr \<Rightarrow> answer_option \<Rightarrow> pstr option" where
  "match_option response opt =
     (case opt of
        DictOption v l \<Rightarrow> if contains v response \<or> contains l response then Some v else None
      | SimpleOption s \<Rightarrow> if contains s response then Some s else None)"

fun first_option_match :: "pstr \<Rightarrow> answer_option list \<Rightarrow> pstr option" where
  "first_option_match response [] = None"
| "first_option_match response (opt # opts) =
     (case match_option response opt of
        Some v \<Rightarrow> Some v
      | None \<Rightarrow> first_option_match response opts)"

fun exact_matches :: "pstr \<Rightarrow> question list \<Rightarrow> pdict \<Rightarrow> pdict" where
  "exact_matches response [] parsed = parsed"
| "exact_matches response (q # qs) parsed =
     exact_matches response qs
       (case first_option_match response (options q) of
          Some v \<Rightarrow> AList.update (parameter_key q) v parsed
        | None \<Rightarrow> parsed)"

text \<open>
  The delimiters, in the order tried: \<open>' | '\<close>, \<open>'|'\<close>, the full-width comma, \<open>','\<close>, the
  full-width semicolon, \<open>';'\<close> and the newline. The response is split at the first
  delimiter that occurs in it.
\<close>

definition delimiters :: "pstr list" where
  "delimiters = [[32, 124, 32], [124], [65292], [44], [65307], [59], [10]]"

fun first_delimiter :: "pstr \<Rightarrow> pstr list \<Rightarrow> pstr option" where
  "first_delimiter response [] = None"
| "first_delimiter response (d # ds) =
     (if contains d response then Some d else first_delimiter response ds)"

definition split_parts :: "pstr \<Rightarrow> pstr list" where
  "split_parts response =
     (case first_delimiter response delimiters of
        Some d \<Rightarrow> py_split d response
      | None \<Rightarrow> [response])"

text \<open>The parts assigned to the questions by position, skipping keys already parsed.\<close>

fun assign_parts :: "(pstr \<times> question) list \<Rightarrow> pdict \<Rightarrow> pdict" where
  "assign_parts [] parsed = parsed"
| "assign_parts ((part, q) # rest) parsed =
     assign_parts rest
       (if has_key (parameter_key q) parsed then parsed
        else AList.update (parameter_key q) (strip part) parsed)"

text \<open>
  The clean-up of a marked value: trailing full stops, commas and semicolons (full-width or
  ASCII) are removed.
\<close>

definition strip_trailing_punctuation :: "pstr \<Rightarrow> pstr" where
  "strip_trailing_punctuation v =
     rev (dropWhile (\<lambda>c. c \<in> set [12290, 65292, 44, 59, 65307]) (rev v))"

definition marked_value :: "parser_env \<Rightarrow> pstr \<Rightarrow> question \<Rightarrow> pstr option" where
  "marked_value env response q =
     (case search_marked env
             (case parameter_name q of Some n \<Rightarrow> n | None \<Rightarrow> parameter_key q) response of
        Some g \<Rightarrow> Some (strip_trailing_punctuation (strip g))
      | None \<Rightarrow>
          (case search_marked env (parameter_key q) response of
             Some g \<Rightarrow> Some (strip_trailing_punctuation (strip g))
           | None \<Rightarrow> None))"

text \<open>One round of the second loop, for one question.\<close>

definition parse_question :: "parser_env \<Rightarrow> pstr \<Rightarrow> question list \<Rightarrow> question \<Rightarrow> pdict \<Rightarrow> pdict" where
  "parse_question env response questions q parsed =
     (if has_key (parameter_key q) parsed then parsed
      else
        (let parts = split_parts response
         in if length parts = length questions then assign_parts (zip parts questions) parsed
            else
              (let parsed1 =
                     (case marked_value env response q of
                        Some v \<Rightarrow> AList.update (parameter_key q) v parsed
                      | None \<Rightarrow> parsed)
               in if \<not> has_key (parameter_key q) parsed1 then
                    (case extract_param_value env response q of
                       Some v \<Rightarrow> if v \<noteq> [] then AList.update (parameter_key q) v parsed1
                                 else parsed1
                     | None \<Rightarrow> parsed1)
                  else parsed1)))"

fun parse_questions :: "parser_env \<Rightarrow> pstr \<Rightarrow> question list \<Rightarrow> question list \<Rightarrow> pdict \<Rightarrow> pdict" where
  "parse_questions env response questions [] parsed = parsed"
| "parse_questions env response questions (q # qs) parsed =
     parse_questions env response questions qs (parse_question env response questions q parsed)"

text \<open>
  The validation step: a value that, stripped, is shorter than two characters or is one of
  the bare affirmatives (yes, no, good, fine) is deleted.
\<close>

definition affirmatives :: "pstr list" where
  "affirmatives = [[26159], [21542], [22909], [21487, 20197]]"

definition is_noise :: "pstr \<Rightarrow> bool" where
  "is_noise v = (length v < 2 \<or> v \<in> set affirmatives)"

definition validate :: "pdict \<Rightarrow> pdict" where
  "validate parsed =
     fold (\<lambda>(param_key, v) d. if is_noise (strip v) then AList.delete param_key d else d)
       parsed parsed"

definition parse_response_by_rules :: "parser_env \<Rightarrow> pstr \<Rightarrow> question list \<Rightarrow> pdict" where
  "parse_response_by_rules env response questions =
     (if list_ex (\<lambda>skip_word. contains skip_word (str_lower env response)) skip_words then []
      else
        (let parsed = exact_matches response questions []
         in if length parsed = length questions then parsed
            else validate (parse_questions env response questions questions parsed)))"

text \<open>The phrases of \<open>_check_skip_remaining\<close>.\<close>

definition skip_phrases :: "pstr list" where
  "skip_phrases =
     [[36339, 36807], [40664, 35748], [25512, 33616], [33258, 21160],
      [24555, 36895, 29983, 25104], [19981, 29992, 38382, 20102],
      [30452, 25509, 29983, 25104], [37117, 34892], [38543, 20415],
      [36339, 36807, 25216, 26415, 21442, 25968],
      [25216, 26415, 21442, 25968, 29992, 40664, 35748],
      [20351, 29992, 25512, 33616, 21442, 25968]]"

definition check_skip_remaining :: "parser_env \<Rightarrow> pstr \<Rightarrow> bool" where
  "check_skip_remaining env response =
     list_ex (\<lambda>phrase. contains phrase (str_lower env response)) skip_phrases"

text \<open>
  \<open>parse_user_response\<close>. The analysis by the language model is a parameter: \<open>None\<close> when
  the call or the reading of its result raises, otherwise the \<open>parsed_parameters\<close> and the
  \<open>skip_remaining\<close> flag of the JSON object the model returned.
\<close>

record parse_result =
  parameters :: pdict
  skip_remaining :: bool

definition parse_user_response ::
  "parser_env \<Rightarrow> bool \<Rightarrow> (pdict \<times> bool) option \<Rightarrow> pstr \<Rightarrow> question list \<Rightarrow> parse_result" where
  "parse_user_response env ai_mode_enabled ai_analysis response pending_questions =
     (case (if ai_mode_enabled then ai_analysis else None) of
        Some (parsed_params, skip) \<Rightarrow>
          \<lparr>parameters = (if parsed_params = []
                          then parse_response_by_rules env response pending_questions
                          else parsed_params),
           skip_remaining = skip\<rparr>
      | None \<Rightarrow>
          \<lparr>parameters = parse_response_by_rules env response pending_questions,
           skip_remaining = check_skip_remaining env response\<rparr>)"

text \<open>The keys of the pending questions.\<close>

definition pending_keys :: "question list \<Rightarrow> pstr set" where
  "pending_keys questions = set (map parameter_key questions)"

section \<open>The options of a question\<close>

text \<open>
  \<open>_validate_options_for_param\<close>: the filter through which options proposed by the language
  model pass before they are put into a question. An option is a dictionary; the filter
  reads its \<open>value\<close> and \<open>label\<close>, the pair below. For six parameters an option is kept
  only if one of the parameter's keywords occurs in the value or in the label (and, for the
  monitoring period and the analysis requirements, no excluded word does); for every other
  parameter all options are kept.
\<close>

definition frequency_keywords :: "pstr list" where
  "frequency_keywords =
     [[27425], [27599, 22825], [27599, 21608], [27599, 26376], [27599, 23567, 26102],
      [23454, 26102]]"

definition period_keywords :: "pstr list" where
  "period_keywords =
     [[20010, 26376], [24180], [21608], [22825], [38271, 26399], [30701, 26399], [23395]]"

definition frequency_exclusions :: "pstr list" where
  "frequency_exclusions = [[27599, 22825], [27599, 21608], [27599, 26376], [27425]]"

definition analysis_keywords :: "pstr list" where
  "analysis_keywords =
     [[26816, 27979], [35782, 21035], [20998, 31867], [21453, 28436], [20998, 26512],
      [30417, 27979], [35780, 20272], [25552, 21462], [39044, 27979], [39044, 35686],
      [21464, 21270], [36235, 21183], [24322, 24120], [30446, 26631], [23450, 37327],
      [23450, 24615], [21442, 25968], [31639, 27861], [27169, 22411]]"

definition exclusion_keywords :: "pstr list" where
  "exclusion_keywords =
     [[39057, 29575], [21608, 26399], [20998, 36776, 29575], [26102, 38388], [31859], [27425]]"

definition accuracy_keywords :: "pstr list" where
  "accuracy_keywords =
     [[37], [31934, 24230], [32423], [20934, 30830], [36136, 37327], [26631, 20934]]"

definition format_keywords :: "pstr list" where
  "format_keywords =
     [[22270], [34920], [25253, 21578], [25968, 25454], [24433, 20687], [20135, 21697],
      [25991, 20214], [39044, 35686], [25509, 21475], [31995, 32479], [19987, 39064],
      [32479, 35745], [20998, 26512]]"

definition spectral_keywords :: "pstr list" where
  "spectral_keywords =
     [[20809], [27874, 27573], [20809, 35889], [32418, 22806], [21487, 35265],
      [38647, 36798], [22810, 20809, 35889], [39640, 20809, 35889], [28909, 32418, 22806],
      lit ''RGB'', lit ''NIR'', lit ''SWIR'']"

text \<open>\<open>any(keyword in value or keyword in label for keyword in keywords)\<close>.\<close>

definition any_keyword :: "pstr list \<Rightarrow> pstr \<Rightarrow> pstr \<Rightarrow> bool" where
  "any_keyword keywords v l = list_ex (\<lambda>keyword. contains keyword v \<or> contains keyword l) keywords"

definition validate_options_for_param :: "(pstr \<times> pstr) list \<Rightarrow> pstr \<Rightarrow> (pstr \<times> pstr) list" where
  "validate_options_for_param opts param_key =
     filter (\<lambda>(v, l).
       if param_key = lit ''observation_frequency'' then any_keyword frequency_keywords v l
       else if param_key = lit ''monitoring_period'' then
         any_keyword period_keywords v l \<and> \<not> any_keyword frequency_exclusions v l
       else if param_key = lit ''analysis_requirements'' then
         any_keyword analysis_keywords v l \<and> \<not> any_keyword exclusion_keywords v l
       else if param_key = lit ''accuracy_requirements'' then any_keyword accuracy_keywords v l
       else if param_key = lit ''output_format'' then any_keyword format_keywords v l
       else if param_key = lit ''spectral_bands'' then any_keyword spectral_keywords v l
       else True) opts"

text \<open>
  The options of a question made from what the language model proposed: the dictionaries
  that pass the filter, as they are.
\<close>

definition validated_options :: "(pstr \<times> pstr) list \<Rightarrow> pstr \<Rightarrow> answer_option list" where
  "validated_options opts param_key =
     map (\<lambda>(v, l). DictOption v l) (validate_options_for_param opts param_key)"

text \<open>
  Concrete inputs: a parser whose searches find nothing; a question without options; a
  question about the output format (name U+8F93 U+51FA U+683C U+5F0F) whose one option,
  proposed by the model, has the value U+56FE (``chart'') and the label U+4E13 U+9898 U+56FE
  (``thematic chart''); a question about the monitoring target whose one option has the
  value and label U+662F (``yes'').
\<close>

definition plain_env :: parser_env where
  "plain_env = \<lparr>str_lower = (\<lambda>s. s), search_marked = (\<lambda>_ _. None),
                extract_param_value = (\<lambda>_ _. None)\<rparr>"

definition area_question :: question where
  "area_question = \<lparr>parameter_key = lit ''observation_area'', parameter_name = None,
                    options = []\<rparr>"

definition chart_option :: "pstr \<times> pstr" where
  "chart_option = ([22270], [19987, 39064, 22270])"

definition format_question :: question where
  "format_question =
     \<lparr>parameter_key = lit ''output_format'',
      parameter_name = Some [36755, 20986, 26684, 24335],
      options = validated_options [chart_option] (lit ''output_format'')\<rparr>"

definition target_question :: question where
  "target_question =
     \<lparr>parameter_key = lit ''monitoring_target'',
      parameter_name = Some [30417, 27979, 30446, 26631],
      options = validated_options [([26159], [26159])] (lit ''monitoring_target'')\<rparr>"

section \<open>Structural parameters: the two-signal calculators\<close>

text \<open>
  \<open>_calculate_frequency_uncertainty\<close>, \<open>_calculate_period_uncertainty\<close>,
  \<open>_calculate_area_uncertainty\<close> and \<open>_calculate_range_uncertainty\<close> have one shape: a
  missing text scores 1; otherwise a format check decides, and only when it fails and the LLM
  is enabled a fallback judgment is asked. The format checks (regular expressions) and the
  fallback calls are parameters.
\<close>

definition two_signal_uncertainty ::
  "(pstr \<Rightarrow> bool) \<Rightarrow> (pstr \<Rightarrow> bool) \<Rightarrow> pstr option \<Rightarrow> bool \<Rightarrow> uncertainty_result" where
  "two_signal_uncertainty format_check llm_check text0 enable_llm =
     (if missing_text text0 then \<lparr>uncertainty_score = 1, needs_clarification = True\<rparr>
      else
        (let text = strip (the text0);
             valid_format = format_check text;
             llm_valid = (if enable_llm \<and> \<not> valid_format then llm_check text else False);
             score = (if valid_format \<or> llm_valid then 0 else 1 :: real)
         in \<lparr>uncertainty_score = score, needs_clarification = (score > 5 / 10)\<rparr>))"

section \<open>The staged controller\<close>

text \<open>
  The collection stage is a string in the source. The controller only ever assigns the seven
  names below: \<open>not_started\<close> (the default, and the reset of a new task), the five
  collecting stages, which are the keys of \<open>COLLECTION_STAGES\<close>, and \<open>completed\<close>.
\<close>

datatype collecting_stage = Purpose | Time | LocationArea | LocationRange | Technical

datatype stage = NotStarted | Collecting collecting_stage | Completed

definition stage_order :: "collecting_stage list" where
  "stage_order = [Purpose, Time, LocationArea, LocationRange, Technical]"

text \<open>The position of a stage in the fixed order, for stating that a stage is later.\<close>

fun collecting_rank :: "collecting_stage \<Rightarrow> nat" where
  "collecting_rank Purpose = 1"
| "collecting_rank Time = 2"
| "collecting_rank LocationArea = 3"
| "collecting_rank LocationRange = 4"
| "collecting_rank Technical = 5"

fun stage_rank :: "stage \<Rightarrow> nat" where
  "stage_rank NotStarted = 0"
| "stage_rank (Collecting c) = collecting_rank c"
| "stage_rank Completed = 6"

record stage_info =
  params :: "pstr list"
  required :: bool
  max_retries :: nat

fun COLLECTION_STAGES :: "collecting_stage \<Rightarrow> stage_info" where
  "COLLECTION_STAGES Purpose =
     \<lparr>params = [lit ''monitoring_target''], required = True, max_retries = 2\<rparr>"
| "COLLECTION_STAGES Time =
     \<lparr>params = [lit ''observation_frequency'', lit ''monitoring_period''],
      required = True, max_retries = 2\<rparr>"
| "COLLECTION_STAGES LocationArea =
     \<lparr>params = [lit ''observation_area''], required = True, max_retries = 2\<rparr>"
| "COLLECTION_STAGES LocationRange =
     \<lparr>params = [lit ''coverage_range''], required = True, max_retries = 2\<rparr>"
| "COLLECTION_STAGES Technical =
     \<lparr>params = [lit ''spatial_resolution'', lit ''spectral_bands'',
                lit ''analysis_requirements'', lit ''output_format'',
                lit ''accuracy_requirements''],
      required = False, max_retries = 1\<rparr>"

datatype role = User | Assistant | OtherRole

record message =
  msg_role :: role
  msg_content :: pstr

record history_record =
  hist_stage :: stage
  hist_retry_count :: nat
  hist_user_response :: pstr
  hist_parsed_params :: pdict

text \<open>What the controller passes to the streaming callback.\<close>

datatype event =
    ClarificationStart
  | ClarificationComplete pdict
  | ClarificationQuestions collecting_stage "question list" nat
  | StageComplete collecting_stage pdict

text \<open>
  The fields of \<open>WorkflowState\<close> and the entries of its \<open>metadata\<close> that the controller
  reads or writes. A missing \<open>extracted_parameters\<close> entry reads as the empty dictionary,
  a missing flag as false. \<open>sent_events\<close> is the log of the calls to the streaming
  callback, and \<open>questions_asked\<close> the log of the question sets put to the user (stored as
  pending, added to the dialogue as an assistant message and sent to the callback), both
  oldest first.
\<close>

record workflow_state =
  messages :: "message list"
  parameter_collection_stage :: stage
  parameter_collection_history :: "history_record list"
  stage_retry_count :: "collecting_stage \<Rightarrow> nat option"
  extracted_parameters :: pdict
  clarification_completed :: bool
  clarification_skipped :: bool
  awaiting_clarification :: bool
  pending_questions :: "question list"
  current_stage_uncertainty :: "(pstr \<times> uncertainty_result) list"
  sent_events :: "event list"
  questions_asked :: "(collecting_stage \<times> question list) list"

record param_config =
  config_name :: "pstr option"

text \<open>
  The collaborators of the controller: the calculator's checks, the parser's searches, the
  language-model calls (analysis of a response, extraction of parameters from the dialogue,
  generation of options), the parameter configuration file, the text of a clarification
  message, and whether a streaming callback is passed.
\<close>

record controller_env =
  calc_env :: calculator_env
  check_frequency_format :: "pstr \<Rightarrow> bool"
  check_frequency_with_llm :: "pstr \<Rightarrow> bool"
  check_period_info :: "pstr \<Rightarrow> bool"
  check_period_with_llm :: "pstr \<Rightarrow> bool"
  check_location_validity :: "pstr \<Rightarrow> bool"
  check_area_with_llm :: "pstr \<Rightarrow> bool"
  check_range_info :: "pstr \<Rightarrow> bool"
  check_range_with_llm :: "pstr \<Rightarrow> bool"
  parser :: parser_env
  ai_mode :: bool
  analyze_user_response :: "pstr \<Rightarrow> question list \<Rightarrow> (pdict \<times> bool) option"
  extract_parameters :: "workflow_state \<Rightarrow> pdict"
  get_param_config :: "pstr \<Rightarrow> param_config option"
  generate_dynamic_options :: "workflow_state \<Rightarrow> pstr \<Rightarrow> answer_option list"
  generate_batch_dynamic_options ::
    "workflow_state \<Rightarrow> pstr list \<Rightarrow> (pstr \<times> answer_option list) list"
  smart_defaults :: "pstr \<Rightarrow> pdict"
  build_stage_clarification_message :: "question list \<Rightarrow> collecting_stage \<Rightarrow> nat \<Rightarrow> pstr"
  streaming_callback :: bool

subsection \<open>State operations\<close>

definition set_collection_stage :: "stage \<Rightarrow> workflow_state \<Rightarrow> workflow_state" where
  "set_collection_stage s st = st\<lparr>parameter_collection_stage := s\<rparr>"

text \<open>\<open>state.stage_retry_count.get(stage, 0)\<close>.\<close>

definition retry_count_of :: "workflow_state \<Rightarrow> collecting_stage \<Rightarrow> nat" where
  "retry_count_of st s = (case stage_retry_count st s of None \<Rightarrow> 0 | Some n \<Rightarrow> n)"

definition increment_stage_retry :: "collecting_stage \<Rightarrow> workflow_state \<Rightarrow> workflow_state" where
  "increment_stage_retry s st =
     st\<lparr>stage_retry_count := (stage_retry_count st)(s \<mapsto> retry_count_of st s + 1)\<rparr>"

definition add_message :: "role \<Rightarrow> pstr \<Rightarrow> workflow_state \<Rightarrow> workflow_state" where
  "add_message r c st = st\<lparr>messages := messages st @ [\<lparr>msg_role = r, msg_content = c\<rparr>]\<rparr>"

definition send_event :: "controller_env \<Rightarrow> event \<Rightarrow> workflow_state \<Rightarrow> workflow_state" where
  "send_event env ev st =
     (if streaming_callback env then st\<lparr>sent_events := sent_events st @ [ev]\<rparr> else st)"

subsection \<open>get_next_collection_stage\<close>

text \<open>\<open>xs.index(x)\<close>, \<open>None\<close> for the \<open>ValueError\<close>.\<close>

fun index_of :: "'a \<Rightarrow> 'a list \<Rightarrow> nat option" where
  "index_of x [] = None"
| "index_of x (y # ys) = (if x = y then Some 0 else map_option Suc (index_of x ys))"

text \<open>
  \<open>_user_wants_stage\<close> answers \<open>True\<close> for every stage (the keyword test is commented
  out in the source).
\<close>

definition user_wants_stage :: "workflow_state \<Rightarrow> collecting_stage \<Rightarrow> bool" where
  "user_wants_stage st s = True"

text \<open>The loop over the later stages: the first with a missing parameter.\<close>

fun first_incomplete :: "workflow_state \<Rightarrow> collecting_stage list \<Rightarrow> collecting_stage option" where
  "first_incomplete st [] = None"
| "first_incomplete st (next_stage # rest) =
     (let stage_info = COLLECTION_STAGES next_stage;
          missing_params =
            filter (\<lambda>p. \<not> has_key p (extracted_parameters st)) (params stage_info)
      in if missing_params \<noteq> [] \<and> (required stage_info \<or> user_wants_stage st next_stage)
         then Some next_stage
         else first_incomplete st rest)"

text \<open>The result is the name of a collecting stage, or \<open>None\<close>.\<close>

definition get_next_collection_stage :: "workflow_state \<Rightarrow> collecting_stage option" where
  "get_next_collection_stage st =
     (case parameter_collection_stage st of
        NotStarted \<Rightarrow> Some Purpose
      | Completed \<Rightarrow> None
      | Collecting current_stage \<Rightarrow>
          (case index_of current_stage stage_order of
             None \<Rightarrow> Some Purpose
           | Some current_index \<Rightarrow>
               first_incomplete st (drop (current_index + 1) stage_order)))"

subsection \<open>check_stage_uncertainty and should_retry_stage\<close>

definition calculate_time_uncertainty ::
  "controller_env \<Rightarrow> pstr option \<Rightarrow> pstr option \<Rightarrow> bool \<Rightarrow> (pstr \<times> uncertainty_result) list" where
  "calculate_time_uncertainty env frequency_text period_text enable_llm =
     [(lit ''observation_frequency'',
       two_signal_uncertainty (check_frequency_format env) (check_frequency_with_llm env)
         frequency_text enable_llm),
      (lit ''monitoring_period'',
       two_signal_uncertainty (check_period_info env) (check_period_with_llm env)
         period_text enable_llm)]"

definition calculate_location_uncertainty ::
  "controller_env \<Rightarrow> pstr option \<Rightarrow> pstr option \<Rightarrow> bool \<Rightarrow> (pstr \<times> uncertainty_result) list" where
  "calculate_location_uncertainty env area_text range_text enable_llm =
     [(lit ''observation_area'',
       two_signal_uncertainty (check_location_validity env) (check_area_with_llm env)
         area_text enable_llm),
      (lit ''coverage_range'',
       two_signal_uncertainty (check_range_info env) (check_range_with_llm env)
         range_text enable_llm)]"

definition check_stage_uncertainty ::
  "controller_env \<Rightarrow> workflow_state \<Rightarrow> collecting_stage \<Rightarrow> (pstr \<times> uncertainty_result) list" where
  "check_stage_uncertainty env st s =
     (let extracted_params = extracted_parameters st
      in case s of
           Purpose \<Rightarrow>
             (if has_key (lit ''monitoring_target'') extracted_params then
                [(lit ''monitoring_target'',
                  uncertainty_result.truncate
                    (calculate_monitoring_target_uncertainty (calc_env env)
                       (map_of extracted_params (lit ''monitoring_target'')) True True))]
              else [])
         | Time \<Rightarrow>
             calculate_time_uncertainty env
               (map_of extracted_params (lit ''observation_frequency''))
               (map_of extracted_params (lit ''monitoring_period'')) True
         | LocationArea \<Rightarrow>
             (if has_key (lit ''observation_area'') extracted_params then
                (let location_uncertainty =
                       calculate_location_uncertainty env
                         (map_of extracted_params (lit ''observation_area'')) None True
                 in (case map_of location_uncertainty (lit ''observation_area'') of
                       Some r \<Rightarrow> [(lit ''observation_area'', r)]
                     | None \<Rightarrow> []))
              else [])
         | LocationRange \<Rightarrow>
             (if has_key (lit ''coverage_range'') extracted_params then
                (let location_uncertainty =
                       calculate_location_uncertainty env
                         (map_of extracted_params (lit ''observation_area''))
                         (map_of extracted_params (lit ''coverage_range'')) True
                 in (case map_of location_uncertainty (lit ''coverage_range'') of
                       Some r \<Rightarrow> [(lit ''coverage_range'', r)]
                     | None \<Rightarrow> []))
              else [])
         | Technical \<Rightarrow> [])"

definition should_retry_stage ::
  "(pstr \<times> uncertainty_result) list \<Rightarrow> collecting_stage \<Rightarrow> nat \<Rightarrow> bool" where
  "should_retry_stage uncertainty_results s retry_count =
     (if retry_count \<ge> max_retries (COLLECTION_STAGES s) then False
      else
        (let high_uncertainty_params =
               map fst (filter (\<lambda>(param_key, result). needs_clarification result)
                          uncertainty_results)
         in if high_uncertainty_params \<noteq> [] then True else False))"

subsection \<open>should_skip_clarification\<close>

text \<open>
  The markers of a clarification question in an assistant message, and the keywords of a
  new requirement; the last keyword is the text of a regular expression, tested as a plain
  substring as the source does.
\<close>

definition reply_markers :: "pstr list" where
  "reply_markers =
     [[35831, 25552, 20379], [38656, 35201, 20102, 35299], [21442, 25968, 25910, 38598],
      [35831, 22238, 31572], [36873, 25321, 25110, 36755, 20837]]"

definition new_requirement_keywords :: "pstr list" where
  "new_requirement_keywords =
     [[25105, 24819, 30417, 27979], [25105, 38656, 35201, 30417, 27979],
      [25105, 24819, 35201, 30417, 27979], [24110, 25105, 35774, 35745],
      [25442, 19968, 20010], [37325, 26032, 35774, 35745], [21478, 22806], [36824, 24819],
      [25913, 20026, 30417, 27979], [35831, 20026, 25105, 35268, 21010],
      [35831, 35268, 21010], [35831, 24110, 25105, 30417, 27979],
      [30417, 27979, 46, 42, 30340, 46, 42, 24773, 20917]]"

text \<open>The names U+67EC U+57D4 U+5BE8 (Cambodia), U+519C U+4E1A (agriculture) and U+6C34 U+8D28 (water quality).\<close>

definition cambodia :: pstr where "cambodia = [26604, 22484, 23528]"
definition agriculture :: pstr where "agriculture = [20892, 19994]"
definition water_quality :: pstr where "water_quality = [27700, 36136]"

definition is_new_requirement :: "controller_env \<Rightarrow> workflow_state \<Rightarrow> bool" where
  "is_new_requirement env st =
     (let user_messages = filter (\<lambda>m. msg_role m = User) (messages st)
      in if length user_messages < 2 then False
         else
           (let latest_message = str_lower (parser env) (msg_content (last user_messages))
            in if awaiting_clarification st then False
               else if length (messages st) \<ge> 2 \<and>
                       (let prev_message = messages st ! (length (messages st) - 2)
                        in msg_role prev_message = Assistant \<and>
                           list_ex (\<lambda>keyword. contains keyword (msg_content prev_message))
                             reply_markers)
               then False
               else
                 (let previous_message =
                        str_lower (parser env)
                          (msg_content (user_messages ! (length user_messages - 2)))
                  in if (contains cambodia latest_message \<and>
                         \<not> contains cambodia previous_message) \<or>
                        (contains agriculture latest_message \<and>
                         contains water_quality previous_message)
                     then True
                     else list_ex (\<lambda>keyword. contains keyword latest_message)
                            new_requirement_keywords)))"

text \<open>
  The messages that skip all questions (``generate the plan directly'', ``skip all
  questions'', ``use the default parameters''), the essential parameters, and the stage
  order the function consults: \<open>purpose\<close>, \<open>time\<close>, \<open>location\<close>, \<open>technical\<close>, where
  \<open>location\<close> is the name of no stage of the staged controller (\<open>None\<close> below).
\<close>

definition skip_keywords :: "pstr list" where
  "skip_keywords =
     [[30452, 25509, 29983, 25104, 26041, 26696], [36339, 36807, 25152, 26377, 38382, 39064],
      [20351, 29992, 40664, 35748, 21442, 25968]]"

definition essential_params :: "pstr list" where
  "essential_params = [lit ''monitoring_target'', lit ''observation_area'',
                       lit ''observation_frequency'', lit ''monitoring_period'']"

definition coarse_stage_order :: "collecting_stage option list" where
  "coarse_stage_order = [Some Purpose, Some Time, None, Some Technical]"

text \<open>
  The part of \<open>should_skip_clarification\<close> after the test of the current stage. It may
  reset the collected parameters: the state is returned with the answer.
\<close>

definition should_skip_tail :: "controller_env \<Rightarrow> workflow_state \<Rightarrow> bool \<times> workflow_state" where
  "should_skip_tail env st =
     (if clarification_completed st then
        (if is_new_requirement env st then
           (False, st\<lparr>clarification_completed := False, extracted_parameters := []\<rparr>)
         else (True, st))
      else
        (let existing_params = extracted_parameters st;
             missing_params =
               filter (\<lambda>param. case map_of existing_params param of
                                   None \<Rightarrow> True | Some v \<Rightarrow> v = [])
                 essential_params
         in if missing_params \<noteq> [] then (False, st)
            else
              (let has_technical_stage =
                     list_ex (\<lambda>record. hist_stage record = Collecting Technical)
                       (parameter_collection_history st)
               in if \<not> has_technical_stage \<and>
                     parameter_collection_stage st \<noteq> Collecting Technical
                  then (False, st)
                  else (True, st))))"

definition should_skip_clarification ::
  "controller_env \<Rightarrow> workflow_state \<Rightarrow> bool \<times> workflow_state" where
  "should_skip_clarification env st =
     (let user_messages = filter (\<lambda>m. msg_role m = User) (messages st)
      in if user_messages \<noteq> [] \<and>
            strip (str_lower (parser env) (msg_content (last user_messages)))
              \<in> set skip_keywords
         then (True, st)
         else
           (case parameter_collection_stage st of
              Collecting current_stage \<Rightarrow>
                (case index_of (Some current_stage) coarse_stage_order of
                   Some current_index \<Rightarrow>
                     if current_index < length coarse_stage_order - 1 then (False, st)
                     else should_skip_tail env st
                 | None \<Rightarrow> should_skip_tail env st)
            | _ \<Rightarrow> should_skip_tail env st))"

text \<open>
  The test of \<open>process_staged_parameter_clarification\<close> that every stage of the coarse
  order has a record in the collection history.
\<close>

definition has_all_stages :: "workflow_state \<Rightarrow> bool" where
  "has_all_stages st =
     list_all (\<lambda>name. case name of
                  Some s \<Rightarrow> list_ex (\<lambda>record. hist_stage record = Collecting s)
                              (parameter_collection_history st)
                | None \<Rightarrow> False)
       coarse_stage_order"

subsection \<open>apply_smart_defaults\<close>

text \<open>
  The default coverage range for an observation area: the area is tested for the characters
  for lake or reservoir, city, county or district, province or one of three country names.
\<close>

definition default_coverage_range :: "pstr \<Rightarrow> pstr" where
  "default_coverage_range area =
     (if contains [28246] area \<or> contains [27700, 24211] area then lit ''whole_lake''
      else if contains [24066] area then lit ''urban_area''
      else if contains [21439] area \<or> contains [21306] area then lit ''regional''
      else if contains [30465] area \<or>
              list_ex (\<lambda>country. contains country area)
                [[26604, 22484, 23528], [36234, 21335], [27888, 22269]]
      then lit ''large''
      else lit ''regional'')"

definition tech_params :: "pstr list" where
  "tech_params = [lit ''spatial_resolution'', lit ''spectral_bands'',
                  lit ''analysis_requirements'', lit ''accuracy_requirements'',
                  lit ''time_criticality'', lit ''weather_dependency'', lit ''output_format'']"

text \<open>
  \<open>smart_defaults env\<close> gives the defaults the configuration selects for a monitoring
  target.
\<close>

definition apply_smart_defaults :: "controller_env \<Rightarrow> pdict \<Rightarrow> pdict" where
  "apply_smart_defaults env params0 =
     (let monitoring_target =
            (case map_of params0 (lit ''monitoring_target'') of Some v \<Rightarrow> v | None \<Rightarrow> []);
          params1 =
            (if \<not> has_key (lit ''coverage_range'') params0 then
               (case map_of params0 (lit ''observation_area'') of
                  Some area \<Rightarrow>
                    AList.update (lit ''coverage_range'') (default_coverage_range area) params0
                | None \<Rightarrow> params0)
             else params0);
          defaults = smart_defaults env monitoring_target
      in fold (\<lambda>param_key d.
                 if \<not> has_key param_key d then
                   (case map_of defaults param_key of
                      Some v \<Rightarrow> AList.update param_key v d
                    | None \<Rightarrow> d)
                 else d)
           tech_params params1)"

subsection \<open>generate_stage_questions\<close>

text \<open>
  The technical parameters for a monitoring target: the keywords are water quality,
  agriculture, city, disaster, vegetation and environment, in the order of the source.
\<close>

definition base_tech_params :: "pstr list" where
  "base_tech_params = [lit ''spatial_resolution'', lit ''analysis_requirements'',
                       lit ''output_format'']"

definition target_specific_params :: "(pstr \<times> pstr list) list" where
  "target_specific_params =
     [([27700, 36136], [lit ''spectral_bands'', lit ''accuracy_requirements'',
                        lit ''analysis_requirements'']),
      ([20892, 19994], [lit ''spatial_resolution'', lit ''spectral_bands'',
                        lit ''monitoring_season'']),
      ([22478, 24066], [lit ''spatial_resolution'', lit ''analysis_requirements'',
                        lit ''data_processing_level'']),
      ([28798, 23475], [lit ''time_criticality'', lit ''weather_dependency'',
                        lit ''spatial_resolution'']),
      ([26893, 34987], [lit ''spectral_bands'', lit ''spatial_resolution'',
                        lit ''analysis_requirements'']),
      ([29615, 22659], [lit ''spectral_bands'', lit ''analysis_requirements'',
                        lit ''accuracy_requirements''])]"

fun add_specific_params :: "pstr \<Rightarrow> pdict \<Rightarrow> (pstr \<times> pstr list) list \<Rightarrow> pstr list \<Rightarrow> pstr list" where
  "add_specific_params monitoring_target existing_params [] selected = selected"
| "add_specific_params monitoring_target existing_params
     ((target_keyword, specific_params) # rest) selected =
     (if contains target_keyword monitoring_target then
        fold (\<lambda>param sel.
                if param \<notin> set sel \<and> \<not> has_key param existing_params then sel @ [param]
                else sel)
          specific_params selected
      else add_specific_params monitoring_target existing_params rest selected)"

definition get_relevant_technical_params_for_stage :: "pstr \<Rightarrow> pdict \<Rightarrow> pstr list" where
  "get_relevant_technical_params_for_stage monitoring_target existing_params =
     (let selected_params =
            add_specific_params monitoring_target existing_params target_specific_params
              base_tech_params
      in filter (\<lambda>p. \<not> has_key p existing_params) selected_params)"

text \<open>
  A question carries the fields the parser reads; its prompt, hint and examples are texts
  taken from the configuration and are left out.
\<close>

definition build_question :: "controller_env \<Rightarrow> (pstr \<Rightarrow> answer_option list) \<Rightarrow> pstr \<Rightarrow> question option" where
  "build_question env options_of param_key =
     (case get_param_config env param_key of
        None \<Rightarrow> None
      | Some param_config \<Rightarrow>
          Some \<lparr>parameter_key = param_key,
                parameter_name =
                  Some (case config_name param_config of Some n \<Rightarrow> n | None \<Rightarrow> param_key),
                options = options_of param_key\<rparr>)"

definition generate_stage_questions ::
  "controller_env \<Rightarrow> workflow_state \<Rightarrow> collecting_stage \<Rightarrow> (pstr \<times> uncertainty_result) list \<Rightarrow> question list" where
  "generate_stage_questions env st s uncertainty_results =
     (let stage_info = COLLECTION_STAGES s;
          extracted_params = extracted_parameters st;
          retry_count = retry_count_of st s;
          params_to_collect =
            (if s = Technical then
               take 4 (get_relevant_technical_params_for_stage
                         (case map_of extracted_params (lit ''monitoring_target'') of
                            Some v \<Rightarrow> v | None \<Rightarrow> [])
                         extracted_params)
             else
               filter (\<lambda>param_key.
                         if retry_count > 0 \<and> uncertainty_results \<noteq> [] then
                           (case map_of uncertainty_results param_key of
                              Some r \<Rightarrow> needs_clarification r
                            | None \<Rightarrow> False)
                         else \<not> has_key param_key extracted_params)
                 (params stage_info))
      in if params_to_collect = [] then []
         else if s = Technical \<and> length params_to_collect > 1 then
           (let batch_params =
                  filter (\<lambda>param_key. get_param_config env param_key \<noteq> None)
                    params_to_collect;
                batch_options = generate_batch_dynamic_options env st batch_params
            in List.map_filter
                 (build_question env
                    (\<lambda>param_key. case map_of batch_options param_key of
                                    Some opts \<Rightarrow> opts | None \<Rightarrow> []))
                 params_to_collect)
         else
           List.map_filter (build_question env (generate_dynamic_options env st))
             params_to_collect)"

subsection \<open>process_staged_parameter_clarification\<close>

text \<open>
  \<open>extract_existing_parameters\<close>: the extraction itself (rules and language model) is a
  parameter; the function may first reset the collected parameters.
\<close>

definition extract_existing_parameters ::
  "controller_env \<Rightarrow> workflow_state \<Rightarrow> pdict \<times> workflow_state" where
  "extract_existing_parameters env st =
     (if awaiting_clarification st then (extracted_parameters st, st)
      else
        (let st1 = (if is_new_requirement env st
                    then st\<lparr>extracted_parameters := [], clarification_completed := False\<rparr>
                    else st)
         in (extract_parameters env st1, st1)))"

text \<open>
  One pass through the body of the function ends in a return or in the call of the function
  itself on a state whose stage has been set to the next stage.
\<close>

datatype step = Return workflow_state | Recurse workflow_state

text \<open>The branch taken when \<open>should_skip_clarification\<close> answers yes.\<close>

definition skip_completion :: "controller_env \<Rightarrow> workflow_state \<Rightarrow> workflow_state" where
  "skip_completion env st =
     (set_collection_stage Completed
        (st\<lparr>clarification_skipped := True, clarification_completed := True\<rparr>))
       \<lparr>extracted_parameters := apply_smart_defaults env (extracted_parameters st)\<rparr>"

definition skip_branch :: "controller_env \<Rightarrow> workflow_state \<Rightarrow> step" where
  "skip_branch env st =
     (if \<not> has_all_stages st then
        (case get_next_collection_stage st of
           Some next_stage \<Rightarrow> Recurse (set_collection_stage (Collecting next_stage) st)
         | None \<Rightarrow> Return (skip_completion env st))
      else Return (skip_completion env st))"

text \<open>
  The generation of the questions of a stage and what follows it: with no question the next
  stage is taken, otherwise the questions are stored as pending, added to the dialogue and
  sent.
\<close>

definition ask_questions ::
  "controller_env \<Rightarrow> workflow_state \<Rightarrow> collecting_stage \<Rightarrow> nat \<Rightarrow> (pstr \<times> uncertainty_result) list \<Rightarrow> step" where
  "ask_questions env st current_stage retry_count uncertainty_results =
     (let questions = generate_stage_questions env st current_stage uncertainty_results
      in if questions = [] then
           (case get_next_collection_stage st of
              Some next_stage \<Rightarrow> Recurse (set_collection_stage (Collecting next_stage) st)
            | None \<Rightarrow>
                Return ((set_collection_stage Completed st)\<lparr>clarification_completed := True\<rparr>))
         else
           Return
             (send_event env (ClarificationQuestions current_stage questions retry_count)
                (add_message Assistant
                   (build_stage_clarification_message env questions current_stage retry_count)
                   (st\<lparr>pending_questions := questions,
                       current_stage_uncertainty := uncertainty_results,
                       awaiting_clarification := True,
                       questions_asked := questions_asked st @ [(current_stage, questions)]\<rparr>))))"

text \<open>
  The branch taken when \<open>should_skip_clarification\<close> answers no. First the collected
  parameters are loaded: they are extracted from the dialogue only when there are none and
  the stage is \<open>purpose\<close>. Then the current stage is scored, and retried or left.
\<close>

definition load_existing_parameters ::
  "controller_env \<Rightarrow> workflow_state \<Rightarrow> collecting_stage \<Rightarrow> workflow_state" where
  "load_existing_parameters env st current_stage =
     (if extracted_parameters st = [] \<and> current_stage = Purpose then
        (let (existing_params, st') = extract_existing_parameters env st
         in st'\<lparr>extracted_parameters := existing_params\<rparr>)
      else st)"

definition retry_or_advance :: "controller_env \<Rightarrow> workflow_state \<Rightarrow> collecting_stage \<Rightarrow> step" where
  "retry_or_advance env st current_stage =
     (let uncertainty_results = check_stage_uncertainty env st current_stage;
          retry_count = retry_count_of st current_stage
      in if uncertainty_results \<noteq> [] \<and>
            should_retry_stage uncertainty_results current_stage retry_count then
           ask_questions env (increment_stage_retry current_stage st) current_stage retry_count
             uncertainty_results
         else
           (case get_next_collection_stage st of
              Some next_stage \<Rightarrow>
                ask_questions env (set_collection_stage (Collecting next_stage) st) next_stage 0 []
            | None \<Rightarrow>
                (let complete_params = apply_smart_defaults env (extracted_parameters st)
                 in Return
                      (send_event env (ClarificationComplete complete_params)
                         ((set_collection_stage Completed st)
                            \<lparr>clarification_completed := True,
                             extracted_parameters := complete_params\<rparr>)))))"

definition collect_branch :: "controller_env \<Rightarrow> workflow_state \<Rightarrow> collecting_stage \<Rightarrow> step" where
  "collect_branch env st current_stage =
     retry_or_advance env (load_existing_parameters env st current_stage) current_stage"

text \<open>The start of the collection: \<open>not_started\<close> becomes \<open>purpose\<close>.\<close>

definition begin_collection :: "controller_env \<Rightarrow> workflow_state \<Rightarrow> workflow_state" where
  "begin_collection env st =
     (if parameter_collection_stage st = NotStarted
      then send_event env ClarificationStart (set_collection_stage (Collecting Purpose) st)
      else st)"

definition process_body :: "controller_env \<Rightarrow> workflow_state \<Rightarrow> step" where
  "process_body env st0 =
     (let st = begin_collection env st0
      in case parameter_collection_stage st of
           Collecting current_stage \<Rightarrow>
             (let (skip, st') = should_skip_clarification env st
              in if skip then skip_branch env st' else collect_branch env st' current_stage)
         | _ \<Rightarrow> Return st)"

subsection \<open>The recursion of process_staged_parameter_clarification\<close>

text \<open>
  The function calls itself only after setting the stage to the result of
  \<open>get_next_collection_stage\<close>, which is later than the current stage: the recursion ends.
  The lemmas below establish this for one pass through the body.
\<close>

lemma first_incomplete_mem: "first_incomplete st xs = Some n \<Longrightarrow> n \<in> set xs"
  by (induction xs) (auto simp: Let_def split: if_splits)

lemma get_next_later:
  assumes "get_next_collection_stage st = Some n"
  shows "stage_rank (parameter_collection_stage st) < collecting_rank n"
proof (cases "parameter_collection_stage st")
  case NotStarted
  with assms show ?thesis by (simp add: get_next_collection_stage_def)
next
  case (Collecting c)
  have "index_of c stage_order = Some (collecting_rank c - 1)"
    by (cases c) (simp_all add: stage_order_def)
  moreover have "collecting_rank c - 1 + 1 = collecting_rank c"
    by (cases c) simp_all
  ultimately have "first_incomplete st (drop (collecting_rank c) stage_order) = Some n"
    using assms Collecting by (simp add: get_next_collection_stage_def)
  then have "n \<in> set (drop (collecting_rank c) stage_order)"
    by (rule first_incomplete_mem)
  with Collecting show ?thesis
    by (cases c) (auto simp: stage_order_def)
next
  case Completed
  with assms show ?thesis by (simp add: get_next_collection_stage_def)
qed

lemma should_skip_tail_stage:
  "parameter_collection_stage (snd (should_skip_tail env st)) = parameter_collection_stage st"
  by (simp add: should_skip_tail_def Let_def)

lemma should_skip_stage:
  "parameter_collection_stage (snd (should_skip_clarification env st)) = parameter_collection_stage st"
  by (simp add: should_skip_clarification_def Let_def should_skip_tail_stage
           split: stage.splits option.splits)

lemma skip_branch_recurse:
  "skip_branch env st = Recurse st' \<Longrightarrow>
   stage_rank (parameter_collection_stage st) < stage_rank (parameter_collection_stage st')"
  by (auto simp: skip_branch_def set_collection_stage_def split: if_splits option.splits
           dest: get_next_later)

lemma ask_questions_recurse:
  "ask_questions env st cs rc res = Recurse st' \<Longrightarrow>
   stage_rank (parameter_collection_stage st) < stage_rank (parameter_collection_stage st')"
  by (auto simp: ask_questions_def Let_def set_collection_stage_def split: if_splits option.splits
           dest: get_next_later)

lemma extract_stage:
  "parameter_collection_stage (snd (extract_existing_parameters env st)) = parameter_collection_stage st"
  by (simp add: extract_existing_parameters_def Let_def)

lemma load_stage:
  "parameter_collection_stage (load_existing_parameters env st cs) = parameter_collection_stage st"
  using extract_stage [of env st]
  by (auto simp: load_existing_parameters_def split: prod.splits)

lemma retry_or_advance_recurse:
  assumes "retry_or_advance env st cs = Recurse st'"
  shows "stage_rank (parameter_collection_stage st) < stage_rank (parameter_collection_stage st')"
proof -
  from assms consider
      (retry) "ask_questions env (increment_stage_retry cs st) cs (retry_count_of st cs)
                 (check_stage_uncertainty env st cs) = Recurse st'"
    | (advance) n where "get_next_collection_stage st = Some n"
        "ask_questions env (set_collection_stage (Collecting n) st) n 0 [] = Recurse st'"
    unfolding retry_or_advance_def Let_def
    by (auto split: if_splits option.splits)
  then show ?thesis
  proof cases
    case retry
    from ask_questions_recurse [OF this] show ?thesis
      by (simp add: increment_stage_retry_def)
  next
    case advance
    from ask_questions_recurse [OF advance(2)] get_next_later [OF advance(1)]
    show ?thesis by (simp add: set_collection_stage_def)
  qed
qed

lemma collect_branch_recurse:
  assumes "collect_branch env st cs = Recurse st'"
  shows "stage_rank (parameter_collection_stage st) < stage_rank (parameter_collection_stage st')"
  using retry_or_advance_recurse [of env "load_existing_parameters env st cs" cs st'] assms
  by (simp add: collect_branch_def load_stage)

lemma begin_stage:
  "stage_rank (parameter_collection_stage st) \<le> stage_rank (parameter_collection_stage (begin_collection env st))"
  by (simp add: begin_collection_def send_event_def set_collection_stage_def)

lemma process_body_recurse:
  assumes "process_body env st = Recurse st'"
  shows "stage_rank (parameter_collection_stage st) < stage_rank (parameter_collection_stage st')"
proof -
  let ?st1 = "begin_collection env st"
  obtain skip st2 where sk: "should_skip_clarification env ?st1 = (skip, st2)"
    by (cases "should_skip_clarification env ?st1")
  with should_skip_stage [of env ?st1]
  have s2: "parameter_collection_stage st2 = parameter_collection_stage ?st1"
    by simp
  from assms sk obtain cs where
    "(if skip then skip_branch env st2 else collect_branch env st2 cs) = Recurse st'"
    unfolding process_body_def Let_def
    by (auto split: stage.splits)
  then have "stage_rank (parameter_collection_stage st2) < stage_rank (parameter_collection_stage st')"
    by (auto split: if_splits dest: skip_branch_recurse collect_branch_recurse)
  with begin_stage [of st env] s2 show ?thesis by simp
qed

function process_staged_parameter_clarification ::
  "controller_env \<Rightarrow> workflow_state \<Rightarrow> workflow_state" where
  "process_staged_parameter_clarification env st =
     (case process_body env st of
        Return st' \<Rightarrow> st'
      | Recurse st' \<Rightarrow> process_staged_parameter_clarification env st')"
  by pat_completeness auto
termination
proof (relation "measure (\<lambda>(env, st). 6 - stage_rank (parameter_collection_stage st))")
  show "wf (measure (\<lambda>(env, st). 6 - stage_rank (parameter_collection_stage st)))"
    by simp
next
  fix env st st'
  assume "process_body env st = Recurse st'"
  then have later: "stage_rank (parameter_collection_stage st) <
                    stage_rank (parameter_collection_stage st')"
    by (rule process_body_recurse)
  have "stage_rank s \<le> 6" for s
  proof (cases s)
    case (Collecting c)
    then show ?thesis by (cases c) simp_all
  qed simp_all
  from this [of "parameter_collection_stage st'"] later
  show "((env, st'), (env, st)) \<in>
      measure (\<lambda>(env, st). 6 - stage_rank (parameter_collection_stage st))"
    by simp
qed

subsection \<open>process_staged_clarification_response\<close>

datatype error = AttributeError | KeyError

text \<open>\<open>d.update(other)\<close>.\<close>

definition dict_update :: "pdict \<Rightarrow> pdict \<Rightarrow> pdict" where
  "dict_update d other = fold (\<lambda>(k, v) acc. AList.update k v acc) other d"

text \<open>
  The confirmation of the stage and the continuation with the next pass. With a callback the
  name of the stage is looked up in \<open>COLLECTION_STAGES\<close>, which raises \<open>KeyError\<close> for a
  stage that is not a collecting stage.
\<close>

definition confirm_and_continue ::
  "controller_env \<Rightarrow> workflow_state \<Rightarrow> stage \<Rightarrow> pdict \<Rightarrow> error option \<times> workflow_state" where
  "confirm_and_continue env st current_stage parsed_params =
     (if streaming_callback env then
        (case current_stage of
           Collecting s \<Rightarrow>
             (None, process_staged_parameter_clarification env
                      (send_event env (StageComplete s parsed_params) st))
         | _ \<Rightarrow> (Some KeyError, st))
      else (None, process_staged_parameter_clarification env st))"

text \<open>
  The first half of the function: the response is parsed against the pending questions, the
  assignments are merged into the collected parameters, the response is recorded in the
  history and the pending questions are cleared.
\<close>

definition merge_response ::
  "controller_env \<Rightarrow> workflow_state \<Rightarrow> pstr \<Rightarrow> parse_result \<times> workflow_state" where
  "merge_response env st user_response =
     (let current_stage = parameter_collection_stage st;
          pending = pending_questions st;
          parse_result =
            parse_user_response (parser env) (ai_mode env)
              (analyze_user_response env user_response pending) user_response pending;
          parsed_params = parameters parse_result;
          existing_params = dict_update (extracted_parameters st) parsed_params
      in (parse_result,
          st\<lparr>extracted_parameters := existing_params,
             parameter_collection_history :=
               parameter_collection_history st @
                 [\<lparr>hist_stage = current_stage,
                   hist_retry_count =
                     (case current_stage of Collecting s \<Rightarrow> retry_count_of st s | _ \<Rightarrow> 0),
                   hist_user_response = user_response,
                   hist_parsed_params = parsed_params\<rparr>],
             awaiting_clarification := False,
             pending_questions := []\<rparr>))"

text \<open>
  The second half: what follows a skip, and the continuation. \<open>_get_stage_default\<close>,
  called for a missing parameter of a stage the user skips, is defined nowhere in the
  repository: the call raises \<open>AttributeError\<close>.
\<close>

definition after_response ::
  "controller_env \<Rightarrow> workflow_state \<Rightarrow> stage \<Rightarrow> parse_result \<Rightarrow> error option \<times> workflow_state" where
  "after_response env st current_stage parse_result =
     (let parsed_params = parameters parse_result;
          existing_params = extracted_parameters st
      in if skip_remaining parse_result then
           (case current_stage of
              Collecting s \<Rightarrow>
                (if s = Technical then
                   (let complete_params = apply_smart_defaults env existing_params
                    in confirm_and_continue env
                         (send_event env (ClarificationComplete complete_params)
                            ((set_collection_stage Completed st)
                               \<lparr>clarification_completed := True,
                                extracted_parameters := complete_params\<rparr>))
                         current_stage parsed_params)
                 else if list_ex (\<lambda>param. \<not> has_key param existing_params)
                           (params (COLLECTION_STAGES s))
                 then (Some AttributeError, st)
                 else (None, process_staged_parameter_clarification env st))
            | _ \<Rightarrow> (Some KeyError, st))
         else confirm_and_continue env st current_stage parsed_params)"

text \<open>
  The result is the exception that leaves the function, if any, and the state as the
  function leaves it (the state object is mutated in place).
\<close>

definition process_staged_clarification_response ::
  "controller_env \<Rightarrow> workflow_state \<Rightarrow> pstr \<Rightarrow> error option \<times> workflow_state" where
  "process_staged_clarification_response env st user_response =
     (if \<not> awaiting_clarification st then (None, st)
      else if pending_questions st = [] then (None, st\<lparr>awaiting_clarification := False\<rparr>)
      else
        (let (parse_result, st1) = merge_response env st user_response
         in after_response env st1 (parameter_collection_stage st) parse_result))"

subsection \<open>A conversation\<close>

text \<open>
  \<open>handle_parameter_clarification\<close> of the workflow: a turn is a response when an answer is
  awaited and there is a user message, otherwise a pass of the controller.
\<close>

definition handle_parameter_clarification ::
  "controller_env \<Rightarrow> workflow_state \<Rightarrow> error option \<times> workflow_state" where
  "handle_parameter_clarification env st =
     (let user_messages = filter (\<lambda>m. msg_role m = User) (messages st)
      in if awaiting_clarification st \<and> user_messages \<noteq> [] then
           process_staged_clarification_response env st (msg_content (last user_messages))
         else (None, process_staged_parameter_clarification env st))"

text \<open>
  A conversation is a sequence of turns, each with the user's message and the answers the
  collaborators give during the turn. After an exception the next turn goes on from the
  state the failed turn left.
\<close>

fun conversation :: "(controller_env \<times> pstr) list \<Rightarrow> workflow_state \<Rightarrow> workflow_state" where
  "conversation [] st = st"
| "conversation ((env, utterance) # turns) st =
     conversation turns (snd (handle_parameter_clarification env (add_message User utterance st)))"

text \<open>The state of a new conversation, and the reset the workflow makes for a new task.\<close>

definition initial_state :: workflow_state where
  "initial_state =
     \<lparr>messages = [], parameter_collection_stage = NotStarted,
      parameter_collection_history = [], stage_retry_count = Map.empty,
      extracted_parameters = [], clarification_completed = False,
      clarification_skipped = False, awaiting_clarification = False,
      pending_questions = [], current_stage_uncertainty = [],
      sent_events = [], questions_asked = []\<rparr>"

definition reset_for_new_plan :: "workflow_state \<Rightarrow> workflow_state" where
  "reset_for_new_plan st =
     st\<lparr>clarification_completed := False, clarification_skipped := False,
        extracted_parameters := [], awaiting_clarification := False,
        pending_questions := [], parameter_collection_stage := NotStarted,
        parameter_collection_history := [], stage_retry_count := Map.empty\<rparr>"

text \<open>How many times the questions of a stage have been put to the user.\<close>

definition times_asked :: "workflow_state \<Rightarrow> collecting_stage \<Rightarrow> nat" where
  "times_asked st s = length (filter (\<lambda>(asked_stage, qs). asked_stage = s) (questions_asked st))"

text \<open>The position of the state's current stage in the fixed order.\<close>

abbreviation stage_position :: "workflow_state \<Rightarrow> nat" where
  "stage_position st \<equiv> stage_rank (parameter_collection_stage st)"

text \<open>A state at the stage \<open>purpose\<close> with nothing collected.\<close>

definition at_purpose :: workflow_state where
  "at_purpose = initial_state\<lparr>parameter_collection_stage := Collecting Purpose\<rparr>"

subsection \<open>Predicates for the properties of the controller\<close>

text \<open>
  Every parameter of every stage is present, and every score the calculator gives for a
  parameter of a stage is an accept.
\<close>

definition all_stage_params :: "pstr list" where
  "all_stage_params = concat (map (\<lambda>s. params (COLLECTION_STAGES s)) stage_order)"

definition all_params_accepted :: "controller_env \<Rightarrow> workflow_state \<Rightarrow> bool" where
  "all_params_accepted env st =
     (list_all (\<lambda>p. has_key p (extracted_parameters st)) all_stage_params \<and>
      list_all (\<lambda>s. list_all (\<lambda>(param_key, result). \<not> needs_clarification result)
                       (check_stage_uncertainty env st s))
        stage_order)"

text \<open>
  The flag \<open>clarification_completed\<close> is set only together with the stage \<open>completed\<close>,
  and the reset for a new task clears both.
\<close>

definition completion_flag_consistent :: "workflow_state \<Rightarrow> bool" where
  "completion_flag_consistent st =
     (clarification_completed st \<longrightarrow> parameter_collection_stage st = Completed)"

text \<open>The calls of the callback that carry questions.\<close>

fun is_question_event :: "event \<Rightarrow> bool" where
  "is_question_event (ClarificationQuestions s qs n) = True"
| "is_question_event _ = False"

definition question_events :: "workflow_state \<Rightarrow> event list" where
  "question_events st = filter is_question_event (sent_events st)"

text \<open>
  From one state to another no question has been put to the user: the log of the questions
  asked, the question events sent to the callback, the dialogue, the pending questions and
  the awaiting flag are the same.
\<close>

definition no_questions_emitted :: "workflow_state \<Rightarrow> workflow_state \<Rightarrow> bool" where
  "no_questions_emitted st st' =
     (questions_asked st' = questions_asked st \<and>
      question_events st' = question_events st \<and>
      messages st' = messages st \<and>
      pending_questions st' = pending_questions st \<and>
      awaiting_clarification st' = awaiting_clarification st)"

text \<open>The state with which one pass through the body ends.\<close>

fun step_state :: "step \<Rightarrow> workflow_state" where
  "step_state (Return st) = st"
| "step_state (Recurse st) = st"

text \<open>
  The bound on the retries: for every stage the retry counter is at most the stage's
  \<open>max_retries\<close>, and the questions of the stage have been asked at most once more than
  the counter says, and only as often as the counter says while the stage is still ahead.
\<close>

definition retry_bounded :: "workflow_state \<Rightarrow> bool" where
  "retry_bounded st =
     list_all (\<lambda>s. retry_count_of st s \<le> max_retries (COLLECTION_STAGES s) \<and>
                    times_asked st s \<le>
                      retry_count_of st s + (if collecting_rank s \<le> stage_position st then 1 else 0))
       stage_order"

text \<open>
  A state in which the questions of its current stage may be asked once more within the
  bound: the stage has been asked no more often than its retry counter says.
\<close>

definition ready_to_ask :: "workflow_state \<Rightarrow> collecting_stage \<Rightarrow> bool" where
  "ready_to_ask st cs =
     (parameter_collection_stage st = Collecting cs \<and> retry_bounded st \<and>
      times_asked st cs \<le> retry_count_of st cs)"

text \<open>
  Every parameter collected in the first state has the same value in the second.
\<close>

definition keeps_values :: "workflow_state \<Rightarrow> workflow_state \<Rightarrow> bool" where
  "keeps_values st st' =
     list_all (\<lambda>k. map_of (extracted_parameters st') k = map_of (extracted_parameters st) k)
       (map fst (extracted_parameters st))"

text \<open>Two states with the same retry counters and the same questions asked.\<close>

definition same_progress :: "workflow_state \<Rightarrow> workflow_state \<Rightarrow> bool" where
  "same_progress st st' =
     (stage_retry_count st' = stage_retry_count st \<and> questions_asked st' = questions_asked st)"

text \<open>
  Collaborators for concrete runs: every check accepts, the language model finds nothing,
  every parameter has a configuration entry, no options are generated, and a callback is
  passed.
\<close>

definition accepting_env :: controller_env where
  "accepting_env =
     \<lparr>calc_env = env_web_llm,
      check_frequency_format = (\<lambda>_. True), check_frequency_with_llm = (\<lambda>_. False),
      check_period_info = (\<lambda>_. True), check_period_with_llm = (\<lambda>_. False),
      check_location_validity = (\<lambda>_. True), check_area_with_llm = (\<lambda>_. False),
      check_range_info = (\<lambda>_. True), check_range_with_llm = (\<lambda>_. False),
      parser = plain_env, ai_mode = False,
      analyze_user_response = (\<lambda>_ _. None),
      extract_parameters = (\<lambda>_. []),
      get_param_config = (\<lambda>_. Some \<lparr>config_name = None\<rparr>),
      generate_dynamic_options = (\<lambda>_ _. []),
      generate_batch_dynamic_options = (\<lambda>_ _. []),
      smart_defaults = (\<lambda>_. []),
      build_stage_clarification_message = (\<lambda>_ _ _. []),
      streaming_callback = True\<rparr>"

text \<open>
  A state in which all ten parameters of the five stages are present: the monitoring target
  is the change of water quality, the other values are the text \<open>ok\<close>.
\<close>

definition all_collected :: workflow_state where
  "all_collected =
     initial_state
       \<lparr>extracted_parameters :=
          (lit ''monitoring_target'', water_quality_change) #
          map (\<lambda>k. (k, lit ''ok''))
            [lit ''observation_frequency'', lit ''monitoring_period'', lit ''observation_area'',
             lit ''coverage_range'', lit ''spatial_resolution'', lit ''spectral_bands'',
             lit ''analysis_requirements'', lit ''output_format'',
             lit ''accuracy_requirements'']\<rparr>"

text \<open>A state at the stage \<open>purpose\<close> whose retry counter has reached the maximum of 2.\<close>

definition purpose_exhausted :: workflow_state where
  "purpose_exhausted =
     initial_state\<lparr>parameter_collection_stage := Collecting Purpose,
                   stage_retry_count := [Purpose \<mapsto> 2]\<rparr>"

text \<open>
  Collaborators that reject: as \<open>accepting_env\<close>, but the web search and the language
  model find nothing for a monitoring target. A state at the stage \<open>purpose\<close> whose retry
  counter has reached the maximum and whose monitoring target is the text \<open>xyz\<close>, which is
  no term of the vocabulary.
\<close>

definition rejecting_env :: controller_env where
  "rejecting_env =
     accepting_env\<lparr>calc_env :=
       env_web_llm\<lparr>check_web_search := (\<lambda>_. False), check_llm_professional := (\<lambda>_. False)\<rparr>\<rparr>"

definition purpose_doubtful :: workflow_state where
  "purpose_doubtful =
     purpose_exhausted\<lparr>extracted_parameters := [(lit ''monitoring_target'', lit ''xyz'')]\<rparr>"

section \<open>Properties of the stream buffer\<close>



lemma send_buffer_view:
  assumes "has_callback st"
  shows "emitted_text (send_buffer clk st) = emitted_text st @ buffer st"
    and "buffer (send_buffer clk st) = []"
    and "table_buffer (send_buffer clk st) = table_buffer st"
    and "in_table (send_buffer clk st) = in_table st"
    and "has_callback (send_buffer clk st)"
  using assms by (simp_all add: send_buffer_def emitted_text_def)

lemma send_table_view:
  assumes "has_callback st"
  shows "emitted_text (send_table st) = emitted_text st @ table_buffer st"
    and "table_buffer (send_table st) = []"
    and "buffer (send_table st) = buffer st"
    and "in_table (send_table st) = in_table st"
    and "has_callback (send_table st)"
  using assms by (simp_all add: send_table_def emitted_text_def)

lemma emitted_text_update [simp]:
  "emitted_text (st\<lparr>buffer := b\<rparr>) = emitted_text st"
  "emitted_text (st\<lparr>full_content := fc\<rparr>) = emitted_text st"
  "emitted_text (st\<lparr>chunk_count := cc\<rparr>) = emitted_text st"
  "emitted_text (st\<lparr>in_table := it\<rparr>) = emitted_text st"
  "emitted_text (st\<lparr>table_buffer := tb\<rparr>) = emitted_text st"
  "emitted_text (st\<lparr>table_line_count := tlc\<rparr>) = emitted_text st"
  "emitted_text (st\<lparr>clock_reads := cr\<rparr>) = emitted_text st"
  by (simp_all add: emitted_text_def)











lemmas buffer_eval =
  lit_def emitted_text_def flush_def new_buffer_def add_content_def send_buffer_def
  send_table_def normalize_newlines_def replace_cr_def table_marker_def blank_pair_def
  count_newlines_def strip_def is_space_def Let_def


text \<open>
  The duplication at the exit from table mode, left out of the amended C1: a fragment that
  arrives in table mode and contains a blank-line pair is emitted whole with the table, and
  its part from the blank-line pair on is put into the ordinary buffer and emitted again.
\<close>

lemma table_exit_duplicates:
  "emitted_text (flush (\<lambda>_. 0) (feed (\<lambda>_. 0)
      [lit ''| --- |'' @ [10], lit ''| 1 |'' @ [10, 10] @ lit ''next'']
      (new_buffer (\<lambda>_. 0) 10 (3 / 10) True))) =
   lit ''| --- |'' @ [10] @ lit ''| 1 |'' @ [10, 10] @ lit ''next'' @ [10, 10] @ lit ''next''"
  by (simp add: buffer_eval)

subsection \<open>No empty chunk\<close>

lemma send_table_nonempty: "nonempty_chunks st \<Longrightarrow> nonempty_chunks (send_table st)"
  by (simp add: nonempty_chunks_def send_table_def)

lemma send_buffer_nonempty: "nonempty_chunks st \<Longrightarrow> nonempty_chunks (send_buffer clk st)"
  by (simp add: nonempty_chunks_def send_buffer_def)

lemma nonempty_chunks_update [simp]:
  "nonempty_chunks (st\<lparr>buffer := b\<rparr>) = nonempty_chunks st"
  "nonempty_chunks (st\<lparr>full_content := fc\<rparr>) = nonempty_chunks st"
  "nonempty_chunks (st\<lparr>chunk_count := cc\<rparr>) = nonempty_chunks st"
  "nonempty_chunks (st\<lparr>in_table := it\<rparr>) = nonempty_chunks st"
  "nonempty_chunks (st\<lparr>table_buffer := tb\<rparr>) = nonempty_chunks st"
  "nonempty_chunks (st\<lparr>table_line_count := tlc\<rparr>) = nonempty_chunks st"
  "nonempty_chunks (st\<lparr>clock_reads := cr\<rparr>) = nonempty_chunks st"
  by (simp_all add: nonempty_chunks_def)

lemma add_content_nonempty:
  assumes "nonempty_chunks st"
  shows "nonempty_chunks (add_content clk f st)"
  using assms
  by (auto simp: add_content_def Let_def send_table_nonempty send_buffer_nonempty
           split: option.splits)

lemma flush_nonempty: "nonempty_chunks st \<Longrightarrow> nonempty_chunks (flush clk st)"
  by (simp add: flush_def Let_def send_table_nonempty send_buffer_nonempty)

lemma feed_nonempty: "nonempty_chunks st \<Longrightarrow> nonempty_chunks (feed clk fs st)"
  by (induction fs arbitrary: st) (simp_all add: add_content_nonempty)

lemma new_buffer_nonempty: "nonempty_chunks (new_buffer clk mcs mbt cb)"
  by (simp add: nonempty_chunks_def new_buffer_def)

text \<open>
  C10: for every sequence of fragments fed to a fresh buffer (any clock, any parameters, with
  or without a callback), every chunk passed to the callback up to and including the final
  \<open>flush()\<close>, ordinary or table, has non-empty content.
\<close>

theorem no_empty_chunk:
  "\<forall>c \<in> set (emitted (flush clk (feed clk fs (new_buffer clk mcs mbt cb)))). content c \<noteq> []"
  using flush_nonempty [OF feed_nonempty [OF new_buffer_nonempty]]
  by (simp add: nonempty_chunks_def)

theorem no_empty_chunk_witness:
  "map is_table (emitted (flush (\<lambda>_. 0) (feed (\<lambda>_. 0) table_run (new_buffer (\<lambda>_. 0) 10 (3 / 10) True))))
     = [False, True, False] \<and>
   content (emitted (flush (\<lambda>_. 0) (feed (\<lambda>_. 0) table_run (new_buffer (\<lambda>_. 0) 10 (3 / 10) True))) ! 0) \<noteq> [] \<and>
   content (emitted (flush (\<lambda>_. 0) (feed (\<lambda>_. 0) table_run (new_buffer (\<lambda>_. 0) 10 (3 / 10) True))) ! 1) \<noteq> [] \<and>
   content (emitted (flush (\<lambda>_. 0) (feed (\<lambda>_. 0) table_run (new_buffer (\<lambda>_. 0) 10 (3 / 10) True))) ! 2) \<noteq> []"
proof -
  let ?out = "emitted (flush (\<lambda>_. 0) (feed (\<lambda>_. 0) table_run (new_buffer (\<lambda>_. 0) 10 (3 / 10) True)))"
  have tables: "map is_table ?out = [False, True, False]"
    by (simp add: table_run_def buffer_eval)
  then have "length ?out = 3"
    by (metis length_map length_Cons list.size(3) numeral_3_eq_3)
  then have "?out ! 0 \<in> set ?out" "?out ! 1 \<in> set ?out" "?out ! 2 \<in> set ?out"
    by simp_all
  with no_empty_chunk [of "\<lambda>_. 0" table_run 10 "3 / 10" True] tables show ?thesis
    by blast
qed

subsection \<open>Flush at the end of a streaming call\<close>

lemma add_content_has_callback: "has_callback (add_content clk f st) = has_callback st"
  by (simp add: add_content_def Let_def send_buffer_def send_table_def split: option.splits)

lemma process_lines_has_callback:
  "has_callback (snd (process_lines clk ls s)) = has_callback (snd s)"
  by (induction clk ls s rule: process_lines.induct) (simp_all add: add_content_has_callback)

lemma fold_process_lines_has_callback:
  "has_callback (snd (fold (process_lines clk) chunks s)) = has_callback (snd s)"
  by (induction chunks arbitrary: s) (simp_all add: process_lines_has_callback)

lemma flush_nothing_held: "has_callback st \<Longrightarrow> nothing_held (flush clk st)"
  by (simp add: nothing_held_def flush_def Let_def send_table_view send_buffer_view)

lemma flush_emits_chunks: "has_callback st \<Longrightarrow> emitted (flush clk st) = emitted st @ held_chunks st"
  by (simp add: flush_def held_chunks_def Let_def send_table_def send_buffer_def)

lemma held_chunks_text: "concat (map content (held_chunks st)) = table_buffer st @ buffer st"
  by (simp add: held_chunks_def)

text \<open>
  C9, as stated, fails: when the iteration over the response body raises, the call leaves
  without \<open>flush()\<close>. After one chunk carrying the three characters \<open>abc\<close> (too few to be
  sent at once) and a timeout, the call returns the timeout failure, the callback has
  received nothing, and the buffer still holds \<open>abc\<close>.
\<close>

theorem flush_on_termination_counterexample:
  "fst (call_deepseek_streaming_api_buffered (\<lambda>_. 0) True 200 [[Content (lit ''abc'')]] StreamTimeout)
     = ApiTimeout \<and>
   emitted (snd (call_deepseek_streaming_api_buffered (\<lambda>_. 0) True 200 [[Content (lit ''abc'')]] StreamTimeout))
     = [] \<and>
   buffer (snd (call_deepseek_streaming_api_buffered (\<lambda>_. 0) True 200 [[Content (lit ''abc'')]] StreamTimeout))
     = lit ''abc'' \<and>
   \<not> nothing_held (snd (call_deepseek_streaming_api_buffered (\<lambda>_. 0) True 200 [[Content (lit ''abc'')]] StreamTimeout))"
  by (simp add: call_deepseek_streaming_api_buffered_def nothing_held_def buffer_eval
        max_buffer_time_0_3_def)

text \<open>
  C9, amended. Let \<open>pre\<close> be the buffer as the received chunks left it. When the response
  has status 200, a callback was passed and the stream ends normally, the content that
  \<open>pre\<close> holds is emitted to the callback: the calls made to the callback are those made
  before, followed by the table buffer of \<open>pre\<close> as a table chunk and the ordinary buffer of
  \<open>pre\<close> as an ordinary chunk (each only if not empty), so the text emitted is the text
  emitted before followed by the two held texts, and afterwards nothing is held. When the
  iteration over the stream raises (timeout, cancellation or another error), the callback
  receives nothing more and the two buffers keep what they held: the held content is not
  emitted.
\<close>

theorem normal_end_emits_held:
  "(let pre = snd (fold (process_lines clk) chunks ([], new_buffer clk 10 max_buffer_time_0_3 cb));
        final = snd (call_deepseek_streaming_api_buffered clk cb 200 chunks EndOfStream)
    in (cb \<longrightarrow>
          emitted final = emitted pre @ held_chunks pre \<and>
          emitted_text final = emitted_text pre @ table_buffer pre @ buffer pre \<and>
          nothing_held final) \<and>
       (\<forall>ending. ending \<noteq> EndOfStream \<longrightarrow>
          emitted (snd (call_deepseek_streaming_api_buffered clk cb 200 chunks ending)) = emitted pre \<and>
          table_buffer (snd (call_deepseek_streaming_api_buffered clk cb 200 chunks ending)) =
            table_buffer pre \<and>
          buffer (snd (call_deepseek_streaming_api_buffered clk cb 200 chunks ending)) = buffer pre))"
proof -
  let ?pre = "snd (fold (process_lines clk) chunks ([], new_buffer clk 10 max_buffer_time_0_3 cb))"
  let ?final = "snd (call_deepseek_streaming_api_buffered clk cb 200 chunks EndOfStream)"
  have final: "?final = flush clk ?pre"
    by (simp add: call_deepseek_streaming_api_buffered_def Let_def split: prod.splits)
  have hc: "has_callback ?pre = cb"
    by (simp add: fold_process_lines_has_callback new_buffer_def)
  have normal: "emitted ?final = emitted ?pre @ held_chunks ?pre \<and>
                emitted_text ?final = emitted_text ?pre @ table_buffer ?pre @ buffer ?pre \<and>
                nothing_held ?final" if cb
  proof -
    from hc that have cbp: "has_callback ?pre" by blast
    have sent: "emitted (flush clk ?pre) = emitted ?pre @ held_chunks ?pre"
      using cbp by (rule flush_emits_chunks)
    have "emitted_text (flush clk ?pre) = concat (map content (emitted ?pre @ held_chunks ?pre))"
      unfolding emitted_text_def sent ..
    also have "\<dots> = emitted_text ?pre @ table_buffer ?pre @ buffer ?pre"
      by (simp add: emitted_text_def held_chunks_text)
    finally have etext: "emitted_text (flush clk ?pre) =
                        emitted_text ?pre @ table_buffer ?pre @ buffer ?pre" .
    have held: "nothing_held (flush clk ?pre)"
      using cbp by (rule flush_nothing_held)
    from sent etext held show ?thesis unfolding final by blast
  qed
  have other: "snd (call_deepseek_streaming_api_buffered clk cb 200 chunks ending) = ?pre"
    if "ending \<noteq> EndOfStream" for ending
    using that by (cases ending)
       (simp_all add: call_deepseek_streaming_api_buffered_def Let_def split: prod.splits)
  show ?thesis
    unfolding Let_def using normal other by simp
qed

text \<open>
  A run of the theorem: the chunks carry \<open>ab\<close> and then a table separator row. The first is
  sent when the table starts and the row stays in the table buffer. At a normal end the row
  reaches the callback as a table chunk; at a cancellation it does not.
\<close>

theorem normal_end_emits_held_witness:
  "emitted (snd (call_deepseek_streaming_api_buffered (\<lambda>_. 0) True 200
       [[Content (lit ''ab''), Content (lit ''| --- |'' @ [10])]] EndOfStream)) =
     [\<lparr>content = lit ''ab'', accumulated_content = lit ''ab| --- |'' @ [10], is_table = False\<rparr>,
      \<lparr>content = lit ''| --- |'' @ [10], accumulated_content = lit ''ab| --- |'' @ [10],
        is_table = True\<rparr>] \<and>
   emitted_text (snd (call_deepseek_streaming_api_buffered (\<lambda>_. 0) True 200
       [[Content (lit ''ab''), Content (lit ''| --- |'' @ [10])]] EndOfStream)) =
     lit ''ab| --- |'' @ [10] \<and>
   nothing_held (snd (call_deepseek_streaming_api_buffered (\<lambda>_. 0) True 200
       [[Content (lit ''ab''), Content (lit ''| --- |'' @ [10])]] EndOfStream)) \<and>
   emitted (snd (call_deepseek_streaming_api_buffered (\<lambda>_. 0) True 200
       [[Content (lit ''ab''), Content (lit ''| --- |'' @ [10])]] StreamCancelled)) =
     [\<lparr>content = lit ''ab'', accumulated_content = lit ''ab| --- |'' @ [10], is_table = False\<rparr>] \<and>
   table_buffer (snd (call_deepseek_streaming_api_buffered (\<lambda>_. 0) True 200
       [[Content (lit ''ab''), Content (lit ''| --- |'' @ [10])]] StreamCancelled)) =
     lit ''| --- |'' @ [10]"
proof -
  let ?chunks = "[[Content (lit ''ab''), Content (lit ''| --- |'' @ [10])]]"
  let ?pre = "snd (fold (process_lines (\<lambda>_. 0)) ?chunks
                   ([], new_buffer (\<lambda>_. 0) 10 max_buffer_time_0_3 True))"
  have pre_emitted: "emitted ?pre =
      [\<lparr>content = lit ''ab'', accumulated_content = lit ''ab| --- |'' @ [10], is_table = False\<rparr>]"
    by (simp add: buffer_eval max_buffer_time_0_3_def)
  have pre_table: "table_buffer ?pre = lit ''| --- |'' @ [10]"
    by (simp add: buffer_eval max_buffer_time_0_3_def)
  have pre_buffer: "buffer ?pre = []"
    by (simp add: buffer_eval max_buffer_time_0_3_def)
  have pre_full: "full_content ?pre = lit ''ab| --- |'' @ [10]"
    by (simp add: buffer_eval max_buffer_time_0_3_def)
  have d: "StreamCancelled \<noteq> EndOfStream" by simp
  note inst = normal_end_emits_held [of "\<lambda>_. 0" ?chunks True, unfolded Let_def]
  from inst have n: "emitted (snd (call_deepseek_streaming_api_buffered (\<lambda>_. 0) True 200 ?chunks EndOfStream))
        = emitted ?pre @ held_chunks ?pre"
    and t: "emitted_text (snd (call_deepseek_streaming_api_buffered (\<lambda>_. 0) True 200 ?chunks EndOfStream))
        = emitted_text ?pre @ table_buffer ?pre @ buffer ?pre"
    and h: "nothing_held (snd (call_deepseek_streaming_api_buffered (\<lambda>_. 0) True 200 ?chunks EndOfStream))"
    by simp_all
  from inst d have
    e: "emitted (snd (call_deepseek_streaming_api_buffered (\<lambda>_. 0) True 200 ?chunks StreamCancelled))
        = emitted ?pre"
    and tb: "table_buffer (snd (call_deepseek_streaming_api_buffered (\<lambda>_. 0) True 200 ?chunks StreamCancelled))
        = table_buffer ?pre"
    by simp_all
  have hc: "held_chunks ?pre =
      [\<lparr>content = lit ''| --- |'' @ [10], accumulated_content = lit ''ab| --- |'' @ [10],
        is_table = True\<rparr>]"
    unfolding held_chunks_def pre_table pre_buffer pre_full by (simp add: lit_def)
  have et: "emitted_text ?pre = lit ''ab''"
    unfolding emitted_text_def pre_emitted by simp
  show ?thesis
    unfolding n t e tb hc et pre_emitted pre_table pre_buffer using h by (simp add: lit_def)
qed

section \<open>Properties of the uncertainty gate\<close>

lemma target_present:
  assumes "\<not> missing_text (Some t)"
  shows "uncertainty_score (calculate_monitoring_target_uncertainty env (Some t) ew el) =
           round2 (1 - (knowledge_base calculator_weights * indicator (kb_signal env t) +
                web_search calculator_weights * indicator (web_signal env ew t) +
                llm_judgment calculator_weights * indicator (llm_signal env el t)))"
    and "needs_clarification (calculate_monitoring_target_uncertainty env (Some t) ew el) =
           (1 - (knowledge_base calculator_weights * indicator (kb_signal env t) +
                web_search calculator_weights * indicator (web_signal env ew t) +
                llm_judgment calculator_weights * indicator (llm_signal env el t)) > threshold)"
  using assms
  by (simp_all add: calculate_monitoring_target_uncertainty_def Let_def kb_signal_def
        web_signal_def llm_signal_def indicator_def split: prod.splits)

text \<open>Every score the weights can produce is a multiple of a tenth, which rounding keeps.\<close>

lemma round2_score:
  "round2 (1 - (knowledge_base calculator_weights * indicator a +
                web_search calculator_weights * indicator b +
                llm_judgment calculator_weights * indicator c)) =
   1 - (knowledge_base calculator_weights * indicator a +
                web_search calculator_weights * indicator b +
                llm_judgment calculator_weights * indicator c)"
  by (cases a; cases b; cases c)
     (simp_all add: calculator_weights_def indicator_def round2_def Let_def)

lemma target_missing:
  assumes "missing_text tt"
  shows "uncertainty_score (calculate_monitoring_target_uncertainty env tt ew el) = 1"
    and "needs_clarification (calculate_monitoring_target_uncertainty env tt ew el)"
  using assms by (simp_all add: calculate_monitoring_target_uncertainty_def)

text \<open>
  The score and the decision of an existing candidate as functions of the three signals.
\<close>

lemma target_score:
  assumes "\<not> missing_text (Some t)"
  shows "uncertainty_score (calculate_monitoring_target_uncertainty env (Some t) ew el) =
           1 - (knowledge_base calculator_weights * indicator (kb_signal env t) +
                web_search calculator_weights * indicator (web_signal env ew t) +
                llm_judgment calculator_weights * indicator (llm_signal env el t))"
  using target_present(1) [OF assms] by (simp only: round2_score)

lemma target_decision:
  assumes "\<not> missing_text (Some t)"
  shows "needs_clarification (calculate_monitoring_target_uncertainty env (Some t) ew el) =
           (uncertainty_score (calculate_monitoring_target_uncertainty env (Some t) ew el) > 5 / 10)"
  using target_present(2) [OF assms] target_score [OF assms]
  by (simp add: threshold_def)

text \<open>
  C2: the three fixed weights sum to 1; for a candidate that exists, the score returned is
  \<open>1 - (w_kb * kb + w_web * web + w_llm * llm)\<close> over the three signals, and the candidate is
  marked as needing clarification exactly when that score exceeds 0.5; a candidate that is
  absent, empty or blank scores 1 and is marked as needing clarification.
\<close>

theorem target_uncertainty_formula:
  "knowledge_base calculator_weights + web_search calculator_weights +
     llm_judgment calculator_weights = 1 \<and>
   (\<not> missing_text (Some t) \<longrightarrow>
      uncertainty_score (calculate_monitoring_target_uncertainty env (Some t) ew el) =
        1 - (knowledge_base calculator_weights * indicator (kb_signal env t) +
             web_search calculator_weights * indicator (web_signal env ew t) +
             llm_judgment calculator_weights * indicator (llm_signal env el t)) \<and>
      needs_clarification (calculate_monitoring_target_uncertainty env (Some t) ew el) =
        (uncertainty_score (calculate_monitoring_target_uncertainty env (Some t) ew el) > 5 / 10)) \<and>
   (missing_text tt \<longrightarrow>
      uncertainty_score (calculate_monitoring_target_uncertainty env tt ew el) = 1 \<and>
      needs_clarification (calculate_monitoring_target_uncertainty env tt ew el))"
proof -
  have "knowledge_base calculator_weights + web_search calculator_weights +
        llm_judgment calculator_weights = 1"
    by (simp add: calculator_weights_def)
  then show ?thesis
    using target_score [of t env ew el] target_decision [of t env ew el]
      target_missing [of tt env ew el]
    by blast
qed

lemma water_signals:
  "\<not> missing_text (Some water_quality_change)"
  "kb_signal env_web_only water_quality_change"
  "web_signal env_web_only True water_quality_change"
  "\<not> llm_signal env_web_only True water_quality_change"
  "kb_signal env_web_llm water_quality_change"
  "web_signal env_web_llm True water_quality_change"
  "llm_signal env_web_llm True water_quality_change"
  by (simp_all add: missing_text_def water_quality_change_def strip_def is_space_def
        kb_signal_def web_signal_def llm_signal_def check_knowledge_base_def
        env_web_only_def env_web_llm_def water_vocabulary_def)

theorem target_uncertainty_formula_witness:
  "\<not> missing_text (Some water_quality_change) \<and>
   uncertainty_score
     (calculate_monitoring_target_uncertainty env_web_only (Some water_quality_change) True True)
     = 5 / 10 \<and>
   \<not> needs_clarification
     (calculate_monitoring_target_uncertainty env_web_only (Some water_quality_change) True True) \<and>
   missing_text (Some [32, 32]) \<and>
   uncertainty_score (calculate_monitoring_target_uncertainty env_web_only (Some [32, 32]) True True)
     = 1 \<and>
   needs_clarification (calculate_monitoring_target_uncertainty env_web_only (Some [32, 32]) True True)"
proof -
  have blank: "missing_text (Some [32, 32])"
    by (simp add: missing_text_def strip_def is_space_def)
  have score:
    "1 - (knowledge_base calculator_weights * indicator (kb_signal env_web_only water_quality_change) +
          web_search calculator_weights * indicator (web_signal env_web_only True water_quality_change) +
          llm_judgment calculator_weights * indicator (llm_signal env_web_only True water_quality_change))
     = 5 / 10"
    by (simp add: water_signals calculator_weights_def indicator_def)
  from target_uncertainty_formula
         [of water_quality_change env_web_only True True "Some [32, 32]"]
       water_signals(1) blank score
  show ?thesis by simp
qed

text \<open>
  C7: for candidates that exist, the score and the decision depend on the three signals
  only (equal signals give equal score and equal decision), and they are monotone: when
  every signal that holds in the first run holds in the second, the second score is not
  larger and an accept is not turned into a clarify.
\<close>

theorem gate_deterministic_monotone:
  assumes "\<not> missing_text (Some t1)" and "\<not> missing_text (Some t2)"
  shows
   "(kb_signal env1 t1 = kb_signal env2 t2 \<and>
     web_signal env1 ew1 t1 = web_signal env2 ew2 t2 \<and>
     llm_signal env1 el1 t1 = llm_signal env2 el2 t2 \<longrightarrow>
       uncertainty_score (calculate_monitoring_target_uncertainty env1 (Some t1) ew1 el1) =
       uncertainty_score (calculate_monitoring_target_uncertainty env2 (Some t2) ew2 el2) \<and>
       needs_clarification (calculate_monitoring_target_uncertainty env1 (Some t1) ew1 el1) =
       needs_clarification (calculate_monitoring_target_uncertainty env2 (Some t2) ew2 el2)) \<and>
    ((kb_signal env1 t1 \<longrightarrow> kb_signal env2 t2) \<and>
     (web_signal env1 ew1 t1 \<longrightarrow> web_signal env2 ew2 t2) \<and>
     (llm_signal env1 el1 t1 \<longrightarrow> llm_signal env2 el2 t2) \<longrightarrow>
       uncertainty_score (calculate_monitoring_target_uncertainty env2 (Some t2) ew2 el2) \<le>
       uncertainty_score (calculate_monitoring_target_uncertainty env1 (Some t1) ew1 el1) \<and>
       (\<not> needs_clarification (calculate_monitoring_target_uncertainty env1 (Some t1) ew1 el1) \<longrightarrow>
        \<not> needs_clarification (calculate_monitoring_target_uncertainty env2 (Some t2) ew2 el2)))"
proof -
  let ?r1 = "calculate_monitoring_target_uncertainty env1 (Some t1) ew1 el1"
  let ?r2 = "calculate_monitoring_target_uncertainty env2 (Some t2) ew2 el2"
  have mono: "indicator a \<le> indicator b" if "a \<longrightarrow> b" for a b
    using that by (simp add: indicator_def)
  have s1: "uncertainty_score ?r1 =
              1 - (2 / 10 * indicator (kb_signal env1 t1) +
                   3 / 10 * indicator (web_signal env1 ew1 t1) +
                   5 / 10 * indicator (llm_signal env1 el1 t1))"
    using target_score [OF assms(1), of env1 ew1 el1] by (simp add: calculator_weights_def)
  have s2: "uncertainty_score ?r2 =
              1 - (2 / 10 * indicator (kb_signal env2 t2) +
                   3 / 10 * indicator (web_signal env2 ew2 t2) +
                   5 / 10 * indicator (llm_signal env2 el2 t2))"
    using target_score [OF assms(2), of env2 ew2 el2] by (simp add: calculator_weights_def)
  have d1: "needs_clarification ?r1 = (uncertainty_score ?r1 > 5 / 10)"
    by (rule target_decision [OF assms(1)])
  have d2: "needs_clarification ?r2 = (uncertainty_score ?r2 > 5 / 10)"
    by (rule target_decision [OF assms(2)])
  have eq: "uncertainty_score ?r1 = uncertainty_score ?r2 \<and>
            needs_clarification ?r1 = needs_clarification ?r2"
    if "kb_signal env1 t1 = kb_signal env2 t2"
      "web_signal env1 ew1 t1 = web_signal env2 ew2 t2"
      "llm_signal env1 el1 t1 = llm_signal env2 el2 t2"
  proof -
    have "uncertainty_score ?r1 = uncertainty_score ?r2"
      unfolding s1 s2 that by (rule refl)
    then show ?thesis unfolding d1 d2 by simp
  qed
  have le: "uncertainty_score ?r2 \<le> uncertainty_score ?r1 \<and>
            (\<not> needs_clarification ?r1 \<longrightarrow> \<not> needs_clarification ?r2)"
    if "kb_signal env1 t1 \<longrightarrow> kb_signal env2 t2"
      "web_signal env1 ew1 t1 \<longrightarrow> web_signal env2 ew2 t2"
      "llm_signal env1 el1 t1 \<longrightarrow> llm_signal env2 el2 t2"
  proof -
    have "uncertainty_score ?r2 \<le> uncertainty_score ?r1"
      unfolding s1 s2 using mono [OF that(1)] mono [OF that(2)] mono [OF that(3)] by simp
    then show ?thesis unfolding d1 d2 by simp
  qed
  from eq le show ?thesis by blast
qed

theorem gate_deterministic_monotone_witness:
  "\<not> missing_text (Some water_quality_change) \<and>
   \<not> needs_clarification
      (calculate_monitoring_target_uncertainty env_web_only (Some water_quality_change) True True) \<and>
   \<not> needs_clarification
      (calculate_monitoring_target_uncertainty env_web_llm (Some water_quality_change) True True) \<and>
   uncertainty_score
      (calculate_monitoring_target_uncertainty env_web_llm (Some water_quality_change) True True) \<le>
   uncertainty_score
      (calculate_monitoring_target_uncertainty env_web_only (Some water_quality_change) True True)"
proof -
  have accept: "\<not> needs_clarification
      (calculate_monitoring_target_uncertainty env_web_only (Some water_quality_change) True True)"
    using target_present(2) [OF water_signals(1), of env_web_only True True]
    by (simp add: water_signals calculator_weights_def indicator_def threshold_def)
  from gate_deterministic_monotone
         [OF water_signals(1) water_signals(1), of env_web_only env_web_llm True True True True]
       water_signals accept
  show ?thesis by simp
qed

section \<open>Properties of the response parser\<close>

subsection \<open>Keys of the assignments\<close>

lemma keys_update: "fst ` set (AList.update k v d) = insert k (fst ` set d)"
  by (simp add: dom_update)

lemma keys_delete: "fst ` set (AList.delete k d) \<subseteq> fst ` set d"
  by (auto simp: AList.delete_eq)

lemma subset_chain: "A \<subseteq> B \<union> D \<Longrightarrow> B \<subseteq> insert k E \<Longrightarrow> A \<subseteq> E \<union> insert k D"
  by blast

lemma exact_matches_keys:
  "fst ` set (exact_matches response qs parsed) \<subseteq> fst ` set parsed \<union> pending_keys qs"
proof (induction qs arbitrary: parsed)
  case Nil
  then show ?case by simp
next
  case (Cons q qs)
  let ?next = "case first_option_match response (options q) of
                 Some v \<Rightarrow> AList.update (parameter_key q) v parsed | None \<Rightarrow> parsed"
  have step: "fst ` set ?next \<subseteq> insert (parameter_key q) (fst ` set parsed)"
    by (cases "first_option_match response (options q)") (auto simp: dom_update)
  have keys: "pending_keys (q # qs) = insert (parameter_key q) (pending_keys qs)"
    by (simp add: pending_keys_def)
  have "fst ` set (exact_matches response qs ?next)
        \<subseteq> fst ` set parsed \<union> insert (parameter_key q) (pending_keys qs)"
    by (rule subset_chain [OF Cons.IH [of ?next] step])
  then show ?case by (simp only: keys exact_matches.simps)
qed

lemma assign_parts_keys:
  "fst ` set (assign_parts pairs parsed) \<subseteq> fst ` set parsed \<union> parameter_key ` snd ` set pairs"
proof (induction pairs arbitrary: parsed)
  case Nil
  then show ?case by simp
next
  case (Cons pq pairs)
  obtain part q where pq: "pq = (part, q)" by (cases pq)
  let ?next = "if has_key (parameter_key q) parsed then parsed
               else AList.update (parameter_key q) (strip part) parsed"
  have step: "fst ` set ?next \<subseteq> insert (parameter_key q) (fst ` set parsed)"
    by (auto simp: dom_update)
  have keys: "parameter_key ` snd ` set ((part, q) # pairs) =
              insert (parameter_key q) (parameter_key ` snd ` set pairs)"
    by simp
  have "fst ` set (assign_parts pairs ?next)
        \<subseteq> fst ` set parsed \<union> insert (parameter_key q) (parameter_key ` snd ` set pairs)"
    by (rule subset_chain [OF Cons.IH [of ?next] step])
  then show ?case unfolding pq by (simp only: keys assign_parts.simps)
qed

lemma parse_question_keys:
  assumes "q \<in> set questions"
  shows "fst ` set (parse_question env response questions q parsed)
         \<subseteq> fst ` set parsed \<union> pending_keys questions"
proof (cases "has_key (parameter_key q) parsed")
  case True
  then show ?thesis by (simp add: parse_question_def)
next
  case no_key: False
  have key: "parameter_key q \<in> pending_keys questions"
    using assms by (simp add: pending_keys_def)
  show ?thesis
  proof (cases "length (split_parts response) = length questions")
    case True
    have "parameter_key ` snd ` set (zip (split_parts response) questions)
          \<subseteq> pending_keys questions"
      by (auto simp: pending_keys_def dest: set_zip_rightD)
    with assign_parts_keys [of "zip (split_parts response) questions" parsed]
    have "fst ` set (assign_parts (zip (split_parts response) questions) parsed)
          \<subseteq> fst ` set parsed \<union> pending_keys questions"
      by blast
    with no_key True show ?thesis by (simp add: parse_question_def)
  next
    case False
    with no_key
    have "fst ` set (parse_question env response questions q parsed)
          \<subseteq> insert (parameter_key q) (fst ` set parsed)"
      by (auto simp: parse_question_def Let_def dom_update split: option.splits)
    with key show ?thesis by auto
  qed
qed

lemma parse_questions_keys:
  assumes "set qs \<subseteq> set questions"
  shows "fst ` set (parse_questions env response questions qs parsed)
         \<subseteq> fst ` set parsed \<union> pending_keys questions"
  using assms
proof (induction qs arbitrary: parsed)
  case Nil
  then show ?case by simp
next
  case (Cons q qs)
  then have "q \<in> set questions" and "set qs \<subseteq> set questions" by simp_all
  with Cons.IH [of "parse_question env response questions q parsed"]
    parse_question_keys [of q questions env response parsed]
  show ?case by auto
qed

lemma fold_delete_subset:
  "set (fold (\<lambda>(param_key, v) d. if P v then AList.delete param_key d else d) xs d) \<subseteq> set d"
proof (induction xs arbitrary: d)
  case Nil
  then show ?case by simp
next
  case (Cons x xs)
  obtain k v where x: "x = (k, v)" by (cases x)
  have "set (if P v then AList.delete k d else d) \<subseteq> set d"
    by (auto simp: AList.delete_eq)
  with Cons.IH [of "if P v then AList.delete k d else d"] show ?case
    unfolding x by auto
qed

lemma validate_subset: "set (validate parsed) \<subseteq> set parsed"
  unfolding validate_def by (rule fold_delete_subset)

lemma rules_keys:
  "fst ` set (parse_response_by_rules env response questions) \<subseteq> pending_keys questions"
proof -
  have exact: "fst ` set (exact_matches response questions []) \<subseteq> pending_keys questions"
    using exact_matches_keys [of response questions "[]"] by simp
  have "fst ` set (parse_questions env response questions questions
                     (exact_matches response questions [])) \<subseteq> pending_keys questions"
    using parse_questions_keys [of questions questions env response
            "exact_matches response questions []"] exact
    by auto
  then have "fst ` set (validate (parse_questions env response questions questions
                     (exact_matches response questions []))) \<subseteq> pending_keys questions"
    using image_mono [OF validate_subset, of fst] by blast
  with exact show ?thesis
    by (simp add: parse_response_by_rules_def Let_def)
qed

subsection \<open>The validation step\<close>

lemma fold_delete_removes:
  assumes "(k, v) \<in> set xs" and "P v"
  shows "k \<notin> fst ` set (fold (\<lambda>(param_key, v) d. if P v then AList.delete param_key d else d) xs d)"
  using assms
proof (induction xs arbitrary: d)
  case Nil
  then show ?case by simp
next
  case (Cons x xs)
  obtain k' v' where x: "x = (k', v')" by (cases x)
  let ?d = "if P v' then AList.delete k' d else d"
  show ?case
  proof (cases "(k, v) \<in> set xs")
    case True
    from Cons.IH [OF True Cons.prems(2), of ?d] show ?thesis unfolding x by simp
  next
    case False
    with Cons.prems x have eq: "k' = k" "v' = v" by auto
    have "k \<notin> fst ` set (AList.delete k d)" by (auto simp: AList.delete_eq)
    then have "k \<notin> fst ` set (fold (\<lambda>(param_key, v) d. if P v then AList.delete param_key d else d) xs (AList.delete k d))"
      using fold_delete_subset [of P xs "AList.delete k d"] by auto
    with Cons.prems(2) show ?thesis unfolding x eq by simp
  qed
qed

lemma validate_no_noise:
  assumes "(k, v) \<in> set (validate parsed)"
  shows "\<not> is_noise (strip v)"
proof
  assume noise: "is_noise (strip v)"
  from assms validate_subset have mem: "(k, v) \<in> set parsed" by auto
  from fold_delete_removes [of k v parsed "\<lambda>v. is_noise (strip v)" parsed, OF mem noise]
  have "k \<notin> fst ` set (validate parsed)" by (simp add: validate_def)
  with assms show False by force
qed

lemma length_strip: "length (strip v) \<le> length v"
  unfolding strip_def
  by (metis length_rev length_dropWhile_le le_trans)

lemma strip_affirmative: "v \<in> set affirmatives \<Longrightarrow> strip v = v"
  by (auto simp: affirmatives_def strip_def is_space_def)

lemma not_noise_strip: "\<not> is_noise (strip v) \<Longrightarrow> \<not> is_noise v"
  using length_strip [of v] strip_affirmative [of v]
  by (auto simp: is_noise_def)


lemma validated_values:
  assumes "length (exact_matches response questions []) \<noteq> length questions"
    and "(k, v) \<in> set (parse_response_by_rules env response questions)"
  shows "\<not> is_noise v"
proof -
  from assms have "(k, v) \<in> set (validate (parse_questions env response questions questions
                                     (exact_matches response questions [])))"
    by (simp add: parse_response_by_rules_def Let_def split: if_splits)
  then show ?thesis by (rule not_noise_strip [OF validate_no_noise])
qed

text \<open>
  C6, as stated, fails for \<open>parse_user_response\<close>: with the AI mode on, the
  \<open>parsed_parameters\<close> of the model's analysis are returned as they are. When one question,
  about the observation area, is pending and the analysis returns a value for \<open>budget\<close>, the
  result assigns \<open>budget\<close>.
\<close>

theorem parser_keys_counterexample:
  "\<not> fst ` set (parameters (parse_user_response plain_env True
            (Some ([(lit ''budget'', lit ''high'')], False)) [38738, 28023, 28246] [area_question]))
       \<subseteq> pending_keys [area_question]"
  by (simp add: parse_user_response_def pending_keys_def area_question_def lit_def)

text \<open>
  C6, amended: every key in the assignments of the rule-based parser is the
  \<open>parameter_key\<close> of a pending question, for every utterance, every list of pending
  questions and all search functions; so are the keys returned by \<open>parse_user_response\<close>
  when the AI mode is off, when the analysis raises, and when the analysis returns no
  parameters. When the AI mode is on and the analysis returns parameters, these are returned
  as they are.
\<close>

theorem parser_keys_pending:
  "fst ` set (parse_response_by_rules env response questions) \<subseteq> pending_keys questions \<and>
   fst ` set (parameters (parse_user_response env False ai_analysis response questions))
     \<subseteq> pending_keys questions \<and>
   fst ` set (parameters (parse_user_response env ai_mode_enabled None response questions))
     \<subseteq> pending_keys questions \<and>
   fst ` set (parameters (parse_user_response env ai_mode_enabled (Some ([], skip)) response questions))
     \<subseteq> pending_keys questions \<and>
   (parsed_params \<noteq> [] \<longrightarrow>
      parameters (parse_user_response env True (Some (parsed_params, skip)) response questions)
        = parsed_params)"
  using rules_keys [of env response questions]
  by (simp add: parse_user_response_def)

theorem parser_keys_pending_witness:
  "parse_response_by_rules plain_env [38738, 28023, 28246] [area_question] =
     [(lit ''observation_area'', [38738, 28023, 28246])] \<and>
   fst ` set (parse_response_by_rules plain_env [38738, 28023, 28246] [area_question])
     \<subseteq> pending_keys [area_question] \<and>
   [(lit ''budget'', lit ''high'')] \<noteq> [] \<and>
   parameters (parse_user_response plain_env True (Some ([(lit ''budget'', lit ''high'')], False))
                 [38738, 28023, 28246] [area_question])
     = [(lit ''budget'', lit ''high'')]"
proof -
  have run: "parse_response_by_rules plain_env [38738, 28023, 28246] [area_question] =
               [(lit ''observation_area'', [38738, 28023, 28246])]"
    by (simp add: parse_response_by_rules_def plain_env_def area_question_def skip_words_def
          Let_def parse_question_def has_key_def split_parts_def delimiters_def
          validate_def is_noise_def strip_def is_space_def affirmatives_def)
  have nonempty: "[(lit ''budget'', lit ''high'')] \<noteq> []" by simp
  note inst = parser_keys_pending
         [of plain_env "[38738, 28023, 28246]" "[area_question]" None True False
             "[(lit ''budget'', lit ''high'')]"]
  have keys: "fst ` set (parse_response_by_rules plain_env [38738, 28023, 28246] [area_question])
              \<subseteq> pending_keys [area_question]"
    using inst by (rule conjunct1)
  have "[(lit ''budget'', lit ''high'')] \<noteq> [] \<longrightarrow>
        parameters (parse_user_response plain_env True (Some ([(lit ''budget'', lit ''high'')], False))
                      [38738, 28023, 28246] [area_question])
          = [(lit ''budget'', lit ''high'')]"
    using inst by (elim conjE)
  then have returned:
    "parameters (parse_user_response plain_env True (Some ([(lit ''budget'', lit ''high'')], False))
                   [38738, 28023, 28246] [area_question])
       = [(lit ''budget'', lit ''high'')]"
    using nonempty by (rule mp)
  show ?thesis
    using run keys nonempty returned by - (intro conjI, assumption+)
qed

subsection \<open>Values returned without validation\<close>

lemma validate_options_other_keys:
  assumes "param_key \<notin> set [lit ''observation_frequency'', lit ''monitoring_period'',
                              lit ''analysis_requirements'', lit ''accuracy_requirements'',
                              lit ''output_format'', lit ''spectral_bands'']"
  shows "validate_options_for_param opts param_key = opts"
proof -
  have "(\<lambda>(v, l).
       if param_key = lit ''observation_frequency'' then any_keyword frequency_keywords v l
       else if param_key = lit ''monitoring_period'' then
         any_keyword period_keywords v l \<and> \<not> any_keyword frequency_exclusions v l
       else if param_key = lit ''analysis_requirements'' then
         any_keyword analysis_keywords v l \<and> \<not> any_keyword exclusion_keywords v l
       else if param_key = lit ''accuracy_requirements'' then any_keyword accuracy_keywords v l
       else if param_key = lit ''output_format'' then any_keyword format_keywords v l
       else if param_key = lit ''spectral_bands'' then any_keyword spectral_keywords v l
       else True) = (\<lambda>_. True)"
    using assms by (auto simp add: fun_eq_iff)
  then show ?thesis
    unfolding validate_options_for_param_def by simp
qed

lemma chart_option_valid:
  "validate_options_for_param [chart_option] (lit ''output_format'') = [chart_option]"
  by (simp add: validate_options_for_param_def chart_option_def any_keyword_def
        format_keywords_def lit_def)

text \<open>
  C8: the claim holds on the path through the validation step (lemma \<open>validated_values\<close>),
  and fails on the early return: when the exact matching of options has given every pending
  question a value, the parsed dictionary is returned before the validation step. The
  pending question asks for the output format and has one option, with the value U+56FE and
  the label U+4E13 U+9898 U+56FE; the filter of options keeps it, since the value contains
  the keyword U+56FE. The utterance is the label. The parser returns the one-character value
  of the option as the value of the parameter, whatever the two searches would find.
\<close>

theorem exact_match_returns_short_value:
  "validate_options_for_param [chart_option] (lit ''output_format'') = [chart_option] \<and>
   options format_question = [DictOption [22270] [19987, 39064, 22270]] \<and>
   parse_response_by_rules (plain_env\<lparr>search_marked := sm, extract_param_value := ex\<rparr>)
       [19987, 39064, 22270] [format_question]
     = [(lit ''output_format'', [22270])] \<and>
   length (strip [22270]) < 2 \<and>
   is_noise (strip [22270])"
proof -
  have opts: "options format_question = [DictOption [22270] [19987, 39064, 22270]]"
    by (simp add: format_question_def validated_options_def chart_option_valid)
       (simp add: chart_option_def)
  have key: "parameter_key format_question = lit ''output_format''"
    by (simp add: format_question_def)
  have run: "parse_response_by_rules (plain_env\<lparr>search_marked := sm, extract_param_value := ex\<rparr>)
       [19987, 39064, 22270] [format_question]
     = [(lit ''output_format'', [22270])]"
    by (simp add: parse_response_by_rules_def plain_env_def skip_words_def opts key
          match_option_def Let_def)
  have noise: "length (strip [22270]) < 2 \<and> is_noise (strip [22270])"
    by (simp add: is_noise_def strip_def is_space_def)
  from chart_option_valid opts run noise show ?thesis by simp
qed

text \<open>
  The same option-matched value is deleted by the validation step when another question is
  pending and stays unanswered.
\<close>

lemma partial_match_discards_short_value:
  "parse_response_by_rules plain_env [19987, 39064, 22270] [format_question, area_question] = []"
proof -
  have opts: "options format_question = [DictOption [22270] [19987, 39064, 22270]]"
    by (simp add: format_question_def validated_options_def chart_option_valid)
       (simp add: chart_option_def)
  have key: "parameter_key format_question = lit ''output_format''"
    by (simp add: format_question_def)
  show ?thesis
    by (simp add: parse_response_by_rules_def plain_env_def area_question_def opts key
        skip_words_def match_option_def Let_def parse_question_def has_key_def lit_def
        split_parts_def delimiters_def marked_value_def validate_def is_noise_def strip_def
        is_space_def affirmatives_def)
qed

text \<open>
  A bare affirmative is returned in the same way. The filter lets every option through for a
  parameter such as the monitoring target; with the option U+662F pending and the utterance
  U+662F, the parser returns U+662F as the monitoring target.
\<close>

lemma exact_match_returns_affirmative:
  "options target_question = [DictOption [26159] [26159]] \<and>
   parse_response_by_rules (plain_env\<lparr>search_marked := sm, extract_param_value := ex\<rparr>)
       [26159] [target_question]
     = [(lit ''monitoring_target'', [26159])] \<and>
   [26159] \<in> set affirmatives"
proof -
  have "lit ''monitoring_target'' \<notin> set [lit ''observation_frequency'', lit ''monitoring_period'',
                              lit ''analysis_requirements'', lit ''accuracy_requirements'',
                              lit ''output_format'', lit ''spectral_bands'']"
    by (simp add: lit_def)
  then have valid: "validate_options_for_param [([26159], [26159])] (lit ''monitoring_target'')
                    = [([26159], [26159])]"
    by (rule validate_options_other_keys)
  have opts: "options target_question = [DictOption [26159] [26159]]"
    by (simp add: target_question_def validated_options_def valid)
  have key: "parameter_key target_question = lit ''monitoring_target''"
    by (simp add: target_question_def)
  have run: "parse_response_by_rules (plain_env\<lparr>search_marked := sm, extract_param_value := ex\<rparr>)
       [26159] [target_question]
     = [(lit ''monitoring_target'', [26159])]"
    by (simp add: parse_response_by_rules_def plain_env_def skip_words_def opts key
          match_option_def Let_def)
  from opts run show ?thesis by (simp add: affirmatives_def)
qed

section \<open>Properties of the staged controller\<close>

subsection \<open>The stage only moves forward\<close>


lemma stage_rank_le_6: "stage_rank s \<le> 6"
proof (cases s)
  case (Collecting c)
  then show ?thesis by (cases c) simp_all
qed simp_all

lemma skip_completion_stage: "parameter_collection_stage (skip_completion env st) = Completed"
  by (simp add: skip_completion_def set_collection_stage_def)

lemma skip_branch_return:
  "skip_branch env st = Return st' \<Longrightarrow> stage_position st \<le> stage_position st'"
  using stage_rank_le_6 [of "parameter_collection_stage st"]
  by (auto simp: skip_branch_def skip_completion_stage split: if_splits option.splits)

lemma send_event_stage [simp]:
  "parameter_collection_stage (send_event env ev st) = parameter_collection_stage st"
  by (simp add: send_event_def)

lemma add_message_stage [simp]:
  "parameter_collection_stage (add_message r c st) = parameter_collection_stage st"
  by (simp add: add_message_def)

lemma ask_questions_return:
  "ask_questions env st cs rc res = Return st' \<Longrightarrow> stage_position st \<le> stage_position st'"
  using stage_rank_le_6 [of "parameter_collection_stage st"]
  by (auto simp: ask_questions_def Let_def set_collection_stage_def split: if_splits option.splits)

lemma retry_or_advance_return:
  assumes "retry_or_advance env st cs = Return st'"
  shows "stage_position st \<le> stage_position st'"
proof -
  from assms consider
      (retry) "ask_questions env (increment_stage_retry cs st) cs (retry_count_of st cs)
                 (check_stage_uncertainty env st cs) = Return st'"
    | (advance) n where "get_next_collection_stage st = Some n"
        "ask_questions env (set_collection_stage (Collecting n) st) n 0 [] = Return st'"
    | (complete) "parameter_collection_stage st' = Completed"
    unfolding retry_or_advance_def Let_def
    by (auto simp: set_collection_stage_def split: if_splits option.splits)
  then show ?thesis
  proof cases
    case retry
    from ask_questions_return [OF this] show ?thesis
      by (simp add: increment_stage_retry_def)
  next
    case advance
    from ask_questions_return [OF advance(2)] get_next_later [OF advance(1)]
    show ?thesis by (simp add: set_collection_stage_def)
  next
    case complete
    with stage_rank_le_6 [of "parameter_collection_stage st"] show ?thesis by simp
  qed
qed

lemma collect_branch_return:
  assumes "collect_branch env st cs = Return st'"
  shows "stage_position st \<le> stage_position st'"
  using retry_or_advance_return [of env "load_existing_parameters env st cs" cs st'] assms
  by (simp add: collect_branch_def load_stage)

lemma process_body_return:
  assumes "process_body env st = Return st'"
  shows "stage_position st \<le> stage_position st'"
proof -
  let ?st1 = "begin_collection env st"
  obtain skip st2 where sk: "should_skip_clarification env ?st1 = (skip, st2)"
    by (cases "should_skip_clarification env ?st1")
  with should_skip_stage [of env ?st1]
  have s2: "parameter_collection_stage st2 = parameter_collection_stage ?st1"
    by simp
  have "stage_position ?st1 \<le> stage_position st'"
  proof (cases "parameter_collection_stage ?st1")
    case NotStarted
    with assms have "st' = ?st1" by (simp add: process_body_def Let_def)
    then show ?thesis by simp
  next
    case Completed
    with assms have "st' = ?st1" by (simp add: process_body_def Let_def)
    then show ?thesis by simp
  next
    case (Collecting cs)
    with assms sk
    have branch: "(if skip then skip_branch env st2 else collect_branch env st2 cs) = Return st'"
      by (simp add: process_body_def Let_def)
    have "stage_position st2 \<le> stage_position st'"
    proof (cases skip)
      case True
      with branch show ?thesis by (simp add: skip_branch_return)
    next
      case False
      with branch show ?thesis by (simp add: collect_branch_return)
    qed
    with s2 show ?thesis by simp
  qed
  with begin_stage [of st env] show ?thesis by simp
qed

lemma process_forward:
  "stage_position st \<le> stage_position (process_staged_parameter_clarification env st)"
proof (induction env st rule: process_staged_parameter_clarification.induct)
  case (1 env st)
  show ?case
  proof (cases "process_body env st")
    case (Return st')
    then have "process_staged_parameter_clarification env st = st'"
      by (subst process_staged_parameter_clarification.simps) simp
    with process_body_return [OF Return] show ?thesis by simp
  next
    case (Recurse st')
    then have "process_staged_parameter_clarification env st =
               process_staged_parameter_clarification env st'"
      by (subst process_staged_parameter_clarification.simps) simp
    with "1.IH" [OF Recurse] process_body_recurse [OF Recurse] show ?thesis by simp
  qed
qed

lemma confirm_forward:
  "stage_position st \<le> stage_position (snd (confirm_and_continue env st cs parsed))"
  using process_forward [of st env]
    process_forward [of "send_event env (StageComplete s parsed) st" env for s]
  by (auto simp: confirm_and_continue_def split: stage.splits)

lemma merge_response_stage:
  "parameter_collection_stage (snd (merge_response env st r)) = parameter_collection_stage st"
  by (simp add: merge_response_def Let_def)

lemma after_response_forward:
  "stage_position st \<le> stage_position (snd (after_response env st cs pr))"
proof (cases "skip_remaining pr")
  case False
  then show ?thesis
    using confirm_forward [of st env cs "parameters pr"]
    by (simp add: after_response_def Let_def)
next
  case skip: True
  show ?thesis
  proof (cases cs)
    case (Collecting s)
    show ?thesis
    proof (cases "s = Technical")
      case True
      let ?done = "send_event env
          (ClarificationComplete (apply_smart_defaults env (extracted_parameters st)))
          ((set_collection_stage Completed st)
             \<lparr>clarification_completed := True,
              extracted_parameters := apply_smart_defaults env (extracted_parameters st)\<rparr>)"
      have "stage_position ?done = 6" by (simp add: set_collection_stage_def)
      with confirm_forward [of ?done env cs "parameters pr"] stage_rank_le_6 [of "parameter_collection_stage st"]
      have "stage_position st \<le> stage_position (snd (confirm_and_continue env ?done cs (parameters pr)))"
        by simp
      with skip Collecting True show ?thesis
        by (simp add: after_response_def Let_def)
    next
      case False
      with skip Collecting process_forward [of st env] show ?thesis
        by (simp add: after_response_def Let_def)
    qed
  qed (use skip in \<open>simp_all add: after_response_def Let_def\<close>)
qed

lemma response_forward:
  "stage_position st \<le> stage_position (snd (process_staged_clarification_response env st r))"
proof -
  obtain pr st1 where m: "merge_response env st r = (pr, st1)"
    by (cases "merge_response env st r")
  with merge_response_stage [of env st r]
  have "parameter_collection_stage st1 = parameter_collection_stage st" by simp
  with after_response_forward [of st1 env "parameter_collection_stage st" pr] m
  show ?thesis
    by (simp add: process_staged_clarification_response_def)
qed

lemma handle_forward:
  "stage_position st \<le> stage_position (snd (handle_parameter_clarification env st))"
  using response_forward process_forward
  by (simp add: handle_parameter_clarification_def Let_def)

lemma conversation_forward:
  "stage_position st \<le> stage_position (conversation turns st)"
proof (induction turns arbitrary: st)
  case Nil
  then show ?case by simp
next
  case (Cons turn turns)
  obtain env utterance where turn: "turn = (env, utterance)" by (cases turn)
  have "stage_position st = stage_position (add_message User utterance st)" by simp
  also have "\<dots> \<le> stage_position (snd (handle_parameter_clarification env (add_message User utterance st)))"
    by (rule handle_forward)
  also have "\<dots> \<le> stage_position (conversation (turn # turns) st)"
    unfolding turn using Cons.IH by simp
  finally show ?case .
qed

lemma reset_stage: "parameter_collection_stage (reset_for_new_plan st) = NotStarted"
  by (simp add: reset_for_new_plan_def)

text \<open>
  C5: when the current stage is one of the five collecting stages,
  \<open>get_next_collection_stage\<close> returns nothing or a stage strictly later in the fixed order;
  and the stage of the state never moves back: not in one pass of the controller, not in the
  handling of a response, and not over a whole conversation of any number of turns. The
  reset for a new task is the one operation that sets the stage back, to \<open>not_started\<close>.
\<close>

theorem stage_moves_forward:
  "(parameter_collection_stage st = Collecting c \<longrightarrow>
      (\<forall>n. get_next_collection_stage st = Some n \<longrightarrow>
           n \<in> set stage_order \<and> collecting_rank c < collecting_rank n)) \<and>
   stage_position st \<le> stage_position (process_staged_parameter_clarification env st) \<and>
   stage_position st \<le> stage_position (snd (process_staged_clarification_response env st r)) \<and>
   stage_position st \<le> stage_position (conversation turns st) \<and>
   parameter_collection_stage (reset_for_new_plan st) = NotStarted"
proof -
  have "n \<in> set stage_order" for n
    by (cases n) (simp_all add: stage_order_def)
  moreover have "collecting_rank c < collecting_rank n"
    if "parameter_collection_stage st = Collecting c" "get_next_collection_stage st = Some n" for n
    using get_next_later [OF that(2)] that(1) by simp
  ultimately show ?thesis
    using process_forward [of st env] response_forward [of st env r]
      conversation_forward [of st turns] reset_stage [of st]
    by blast
qed

theorem stage_moves_forward_witness:
  "parameter_collection_stage at_purpose = Collecting Purpose \<and>
   get_next_collection_stage at_purpose = Some Time \<and>
   Time \<in> set stage_order \<and> collecting_rank Purpose < collecting_rank Time"
proof -
  have stage: "parameter_collection_stage at_purpose = Collecting Purpose"
    by (simp add: at_purpose_def initial_state_def)
  have next_stage: "get_next_collection_stage at_purpose = Some Time"
    by (simp add: get_next_collection_stage_def at_purpose_def initial_state_def stage_order_def
          has_key_def Let_def)
  from stage_moves_forward [of at_purpose Purpose] stage next_stage
  show ?thesis by blast
qed
subsection \<open>The completed flag goes with the completed stage\<close>

text \<open>
  The controller sets \<open>clarification_completed\<close> only where it sets the stage to
  \<open>completed\<close>, and the reset for a new task clears both: every operation keeps the flag
  consistent with the stage.
\<close>

lemma send_event_flag [simp]:
  "clarification_completed (send_event env ev st) = clarification_completed st"
  by (simp add: send_event_def)

lemma add_message_flag [simp]:
  "clarification_completed (add_message r c st) = clarification_completed st"
  by (simp add: add_message_def)

lemma should_skip_unchanged:
  "\<not> clarification_completed st \<Longrightarrow> snd (should_skip_clarification env st) = st"
  by (simp add: should_skip_clarification_def should_skip_tail_def Let_def
           split: stage.splits option.splits)

lemma skip_branch_consistent:
  "\<not> clarification_completed st \<Longrightarrow> completion_flag_consistent (step_state (skip_branch env st))"
  by (simp add: skip_branch_def skip_completion_def set_collection_stage_def
        completion_flag_consistent_def split: option.splits)

lemma ask_questions_consistent:
  "\<not> clarification_completed st \<Longrightarrow>
   completion_flag_consistent (step_state (ask_questions env st cs rc res))"
  by (simp add: ask_questions_def Let_def set_collection_stage_def
        completion_flag_consistent_def split: option.splits)

lemma load_flag:
  "\<not> clarification_completed st \<Longrightarrow>
   \<not> clarification_completed (load_existing_parameters env st cs)"
  by (simp add: load_existing_parameters_def extract_existing_parameters_def Let_def)

lemma retry_or_advance_consistent:
  assumes "\<not> clarification_completed st"
  shows "completion_flag_consistent (step_state (retry_or_advance env st cs))"
proof -
  have a: "\<not> clarification_completed (increment_stage_retry cs st)"
    using assms by (simp add: increment_stage_retry_def)
  have b: "\<not> clarification_completed (set_collection_stage (Collecting n) st)" for n
    using assms by (simp add: set_collection_stage_def)
  show ?thesis
    using ask_questions_consistent [OF a] ask_questions_consistent [OF b]
    by (simp add: retry_or_advance_def Let_def set_collection_stage_def
          completion_flag_consistent_def split: option.splits)
qed

lemma collect_branch_consistent:
  "\<not> clarification_completed st \<Longrightarrow>
   completion_flag_consistent (step_state (collect_branch env st cs))"
  by (simp add: collect_branch_def retry_or_advance_consistent load_flag)

lemma process_body_consistent:
  assumes "completion_flag_consistent st"
  shows "completion_flag_consistent (step_state (process_body env st))"
proof (cases "parameter_collection_stage (begin_collection env st)")
  case NotStarted
  then have False
    by (simp add: begin_collection_def set_collection_stage_def split: if_splits)
  then show ?thesis ..
next
  case Completed
  then have "begin_collection env st = st"
    by (simp add: begin_collection_def set_collection_stage_def split: if_splits)
  with Completed assms show ?thesis by (simp add: process_body_def)
next
  case (Collecting cs)
  let ?st1 = "begin_collection env st"
  have flag: "\<not> clarification_completed ?st1"
    using assms Collecting
    by (auto simp: begin_collection_def set_collection_stage_def completion_flag_consistent_def
             split: if_splits)
  obtain skip st2 where sk: "should_skip_clarification env ?st1 = (skip, st2)"
    by (cases "should_skip_clarification env ?st1")
  with should_skip_unchanged [OF flag, of env] have st2: "st2 = ?st1" by simp
  have "process_body env st =
        (if skip then skip_branch env ?st1 else collect_branch env ?st1 cs)"
    using Collecting sk st2 by (simp add: process_body_def Let_def)
  with skip_branch_consistent [OF flag] collect_branch_consistent [OF flag]
  show ?thesis by simp
qed

lemma process_consistent:
  "completion_flag_consistent st \<Longrightarrow>
   completion_flag_consistent (process_staged_parameter_clarification env st)"
proof (induction env st rule: process_staged_parameter_clarification.induct)
  case (1 env st)
  show ?case
  proof (cases "process_body env st")
    case (Return st')
    then have "process_staged_parameter_clarification env st = st'"
      by (subst process_staged_parameter_clarification.simps) simp
    with process_body_consistent [OF "1.prems", of env] Return show ?thesis by simp
  next
    case (Recurse st')
    then have "process_staged_parameter_clarification env st =
               process_staged_parameter_clarification env st'"
      by (subst process_staged_parameter_clarification.simps) simp
    moreover from process_body_consistent [OF "1.prems", of env] Recurse
    have "completion_flag_consistent st'" by simp
    ultimately show ?thesis using "1.IH" [OF Recurse] by simp
  qed
qed

lemma confirm_consistent:
  "completion_flag_consistent st \<Longrightarrow>
   completion_flag_consistent (snd (confirm_and_continue env st cs parsed))"
proof -
  assume c: "completion_flag_consistent st"
  then have "completion_flag_consistent (send_event env ev st)" for ev
    by (simp add: completion_flag_consistent_def)
  from process_consistent [OF this] process_consistent [OF c] c
  show ?thesis
    by (simp add: confirm_and_continue_def split: stage.splits)
qed

lemma merge_response_consistent:
  "completion_flag_consistent st \<Longrightarrow>
   completion_flag_consistent (snd (merge_response env st r))"
  by (simp add: merge_response_def Let_def completion_flag_consistent_def)

lemma after_response_consistent:
  assumes "completion_flag_consistent st"
  shows "completion_flag_consistent (snd (after_response env st cs pr))"
proof -
  let ?done = "send_event env
          (ClarificationComplete (apply_smart_defaults env (extracted_parameters st)))
          ((set_collection_stage Completed st)
             \<lparr>clarification_completed := True,
              extracted_parameters := apply_smart_defaults env (extracted_parameters st)\<rparr>)"
  have "completion_flag_consistent ?done"
    by (simp add: completion_flag_consistent_def set_collection_stage_def)
  from confirm_consistent [OF this] confirm_consistent [OF assms] process_consistent [OF assms] assms
  show ?thesis
    by (simp add: after_response_def Let_def split: stage.splits)
qed

lemma response_consistent:
  assumes "completion_flag_consistent st"
  shows "completion_flag_consistent (snd (process_staged_clarification_response env st r))"
proof -
  obtain pr st1 where m: "merge_response env st r = (pr, st1)"
    by (cases "merge_response env st r")
  with merge_response_consistent [OF assms, of env r]
  have "completion_flag_consistent st1" by simp
  from after_response_consistent [OF this] m assms show ?thesis
    by (simp add: process_staged_clarification_response_def completion_flag_consistent_def)
qed

lemma handle_consistent:
  "completion_flag_consistent st \<Longrightarrow>
   completion_flag_consistent (snd (handle_parameter_clarification env st))"
  using response_consistent process_consistent
  by (simp add: handle_parameter_clarification_def Let_def)

lemma conversation_consistent:
  "completion_flag_consistent st \<Longrightarrow> completion_flag_consistent (conversation turns st)"
proof (induction turns arbitrary: st)
  case Nil
  then show ?case by simp
next
  case (Cons turn turns)
  obtain env utterance where turn: "turn = (env, utterance)" by (cases turn)
  from Cons.prems have "completion_flag_consistent (add_message User utterance st)"
    by (simp add: completion_flag_consistent_def)
  then have "completion_flag_consistent
               (snd (handle_parameter_clarification env (add_message User utterance st)))"
    by (rule handle_consistent)
  from Cons.IH [OF this] show ?case unfolding turn by simp
qed

lemma initial_consistent: "completion_flag_consistent initial_state"
  by (simp add: completion_flag_consistent_def initial_state_def)

lemma reset_consistent: "completion_flag_consistent (reset_for_new_plan st)"
  by (simp add: completion_flag_consistent_def reset_for_new_plan_def)

subsection \<open>All parameters accepted: completion in one pass\<close>

lemma all_present_first_incomplete:
  assumes "list_all (\<lambda>p. has_key p (extracted_parameters st)) all_stage_params"
  shows "first_incomplete st xs = None"
proof (induction xs)
  case Nil
  show ?case by simp
next
  case (Cons s xs)
  have "filter (\<lambda>p. \<not> has_key p (extracted_parameters st)) (params (COLLECTION_STAGES s)) = []"
    using assms by (cases s) (simp_all add: all_stage_params_def stage_order_def)
  with Cons show ?case by (simp add: Let_def)
qed

lemma all_present_no_next:
  assumes "list_all (\<lambda>p. has_key p (extracted_parameters st)) all_stage_params"
    and "parameter_collection_stage st = Collecting cs"
  shows "get_next_collection_stage st = None"
proof -
  have "index_of cs stage_order = Some (collecting_rank cs - 1)"
    by (cases cs) (simp_all add: stage_order_def)
  with assms show ?thesis
    by (simp add: get_next_collection_stage_def all_present_first_incomplete)
qed

lemma accepted_no_retry:
  assumes "list_all (\<lambda>(param_key, result). \<not> needs_clarification result) results"
  shows "\<not> should_retry_stage results cs rc"
proof -
  from assms have "filter (\<lambda>(param_key, result). needs_clarification result) results = []"
    by (auto simp: filter_empty_conv list_all_iff)
  then show ?thesis by (simp add: should_retry_stage_def Let_def)
qed

lemma accepted_collecting_completes:
  assumes acc: "all_params_accepted env st"
    and flag: "\<not> clarification_completed st"
    and stage: "parameter_collection_stage st = Collecting cs"
  shows "\<exists>st'. process_body env st = Return st' \<and>
               parameter_collection_stage st' = Completed \<and> no_questions_emitted st st'"
proof -
  from acc have present: "list_all (\<lambda>p. has_key p (extracted_parameters st)) all_stage_params"
    by (simp add: all_params_accepted_def)
  have "cs \<in> set stage_order" by (cases cs) (simp_all add: stage_order_def)
  with acc have accepted:
    "list_all (\<lambda>(param_key, result). \<not> needs_clarification result)
       (check_stage_uncertainty env st cs)"
    by (simp add: all_params_accepted_def list_all_iff)
  have no_next: "get_next_collection_stage st = None"
    using present stage by (rule all_present_no_next)
  have nonempty: "extracted_parameters st \<noteq> []"
    using present by (auto simp: all_stage_params_def stage_order_def has_key_def)
  have bg: "begin_collection env st = st"
    using stage by (simp add: begin_collection_def)
  obtain skip st2 where sk: "should_skip_clarification env st = (skip, st2)"
    by (cases "should_skip_clarification env st")
  with should_skip_unchanged [OF flag, of env] have st2: "st2 = st" by simp
  have body: "process_body env st =
              (if skip then skip_branch env st else collect_branch env st cs)"
    by (simp add: process_body_def bg stage sk st2)
  show ?thesis
  proof (cases skip)
    case True
    have "skip_branch env st = Return (skip_completion env st)"
      by (simp add: skip_branch_def no_next)
    moreover have "no_questions_emitted st (skip_completion env st)"
      by (simp add: no_questions_emitted_def skip_completion_def set_collection_stage_def
            question_events_def)
    moreover have "parameter_collection_stage (skip_completion env st) = Completed"
      by (simp add: skip_completion_def set_collection_stage_def)
    ultimately show ?thesis using body True by simp
  next
    case False
    let ?done = "send_event env
          (ClarificationComplete (apply_smart_defaults env (extracted_parameters st)))
          ((set_collection_stage Completed st)
             \<lparr>clarification_completed := True,
              extracted_parameters := apply_smart_defaults env (extracted_parameters st)\<rparr>)"
    have load: "load_existing_parameters env st cs = st"
      using nonempty by (simp add: load_existing_parameters_def)
    have "retry_or_advance env st cs = Return ?done"
      using accepted_no_retry [OF accepted] no_next
      by (simp add: retry_or_advance_def Let_def)
    then have "collect_branch env st cs = Return ?done"
      by (simp add: collect_branch_def load)
    moreover have "no_questions_emitted st ?done"
      by (simp add: no_questions_emitted_def send_event_def set_collection_stage_def
            question_events_def)
    moreover have "parameter_collection_stage ?done = Completed"
      by (simp add: set_collection_stage_def)
    ultimately show ?thesis using body False by simp
  qed
qed

lemma all_params_accepted_params:
  "extracted_parameters st' = extracted_parameters st \<Longrightarrow>
   all_params_accepted env st' = all_params_accepted env st"
  by (simp add: all_params_accepted_def check_stage_uncertainty_def)

lemma accepted_body_completes:
  assumes acc: "all_params_accepted env st"
    and cons: "completion_flag_consistent st"
  shows "\<exists>st'. process_body env st = Return st' \<and>
               parameter_collection_stage st' = Completed \<and> no_questions_emitted st st'"
proof (cases "parameter_collection_stage st")
  case Completed
  then have "process_body env st = Return st"
    by (simp add: process_body_def begin_collection_def)
  with Completed show ?thesis by (simp add: no_questions_emitted_def)
next
  case (Collecting cs)
  with cons have "\<not> clarification_completed st"
    by (auto simp: completion_flag_consistent_def)
  from accepted_collecting_completes [OF acc this Collecting] show ?thesis .
next
  case NotStarted
  let ?st1 = "send_event env ClarificationStart (set_collection_stage (Collecting Purpose) st)"
  have params: "extracted_parameters ?st1 = extracted_parameters st"
    by (simp add: send_event_def set_collection_stage_def)
  have acc1: "all_params_accepted env ?st1"
    using acc all_params_accepted_params [OF params] by simp
  from NotStarted cons have "\<not> clarification_completed st"
    by (auto simp: completion_flag_consistent_def)
  then have flag1: "\<not> clarification_completed ?st1"
    by (simp add: send_event_def set_collection_stage_def)
  have stage1: "parameter_collection_stage ?st1 = Collecting Purpose"
    by (simp add: set_collection_stage_def)
  from accepted_collecting_completes [OF acc1 flag1 stage1]
  obtain st' where r: "process_body env ?st1 = Return st'"
      "parameter_collection_stage st' = Completed" "no_questions_emitted ?st1 st'"
    by blast
  have b1: "begin_collection env st = ?st1"
    using NotStarted by (simp add: begin_collection_def)
  have b2: "begin_collection env ?st1 = ?st1"
    using stage1 by (simp add: begin_collection_def)
  have "process_body env st = process_body env ?st1"
    unfolding process_body_def b1 b2 ..
  moreover have "no_questions_emitted st ?st1"
    by (simp add: no_questions_emitted_def send_event_def set_collection_stage_def
          question_events_def)
  ultimately show ?thesis
    using r by (auto simp: no_questions_emitted_def)
qed


lemma all_collected_present:
  "list_all (\<lambda>p. has_key p (extracted_parameters all_collected)) all_stage_params"
  by (simp add: all_collected_def all_stage_params_def stage_order_def has_key_def lit_def
        initial_state_def)

lemma all_collected_target:
  "map_of (extracted_parameters all_collected) (lit ''monitoring_target'') = Some water_quality_change"
  by (simp add: all_collected_def initial_state_def)

lemma all_collected_values:
  "map_of (extracted_parameters all_collected) (lit ''observation_frequency'') = Some (lit ''ok'')"
  "map_of (extracted_parameters all_collected) (lit ''monitoring_period'') = Some (lit ''ok'')"
  "map_of (extracted_parameters all_collected) (lit ''observation_area'') = Some (lit ''ok'')"
  "map_of (extracted_parameters all_collected) (lit ''coverage_range'') = Some (lit ''ok'')"
  by (simp_all add: all_collected_def initial_state_def lit_def)

lemma all_collected_keys:
  "has_key (lit ''monitoring_target'') (extracted_parameters all_collected)"
  "has_key (lit ''observation_area'') (extracted_parameters all_collected)"
  "has_key (lit ''coverage_range'') (extracted_parameters all_collected)"
  by (simp_all add: all_collected_def initial_state_def lit_def has_key_def)

lemma target_accepted:
  "\<not> needs_clarification
      (calculate_monitoring_target_uncertainty env_web_llm (Some water_quality_change) True True)"
  by (simp add: target_present(2) [OF water_signals(1)] water_signals indicator_def
        calculator_weights_def threshold_def)

lemma two_signal_accepted:
  "\<not> needs_clarification (two_signal_uncertainty (\<lambda>_. True) llm (Some (lit ''ok'')) True)"
  by (simp add: two_signal_uncertainty_def missing_text_def lit_def strip_def is_space_def Let_def)

lemma all_collected_accepted: "all_params_accepted accepting_env all_collected"
proof -
  have "list_all (\<lambda>(param_key, result). \<not> needs_clarification result)
          (check_stage_uncertainty accepting_env all_collected s)" for s
    by (cases s)
       (simp_all add: check_stage_uncertainty_def all_collected_keys all_collected_target
          all_collected_values accepting_env_def target_accepted two_signal_accepted
          calculate_time_uncertainty_def calculate_location_uncertainty_def
          uncertainty_result.truncate_def Let_def)
  then have "list_all (\<lambda>s. list_all (\<lambda>(param_key, result). \<not> needs_clarification result)
                       (check_stage_uncertainty accepting_env all_collected s)) stage_order"
    by (simp add: list_all_iff)
  with all_collected_present show ?thesis
    unfolding all_params_accepted_def by (rule conjI)
qed

text \<open>
  C4: in the state of any conversation the flag \<open>clarification_completed\<close> is set only at
  the stage \<open>completed\<close>: this holds for a new conversation and after the reset for a new
  task, and every pass of the controller, every handling of a response and every turn keeps
  it. For every such state in which every parameter of every stage is present and every
  score of the calculator for them is an accept, one call of
  \<open>process_staged_parameter_clarification\<close> ends at the stage \<open>completed\<close> and puts no
  question to the user: nothing is added to the questions asked, to the question events sent
  to the callback or to the dialogue, and the pending questions and the awaiting flag are as
  before.
\<close>

theorem all_accepted_completes:
  "(all_params_accepted env st \<and> completion_flag_consistent st \<longrightarrow>
      parameter_collection_stage (process_staged_parameter_clarification env st) = Completed \<and>
      no_questions_emitted st (process_staged_parameter_clarification env st)) \<and>
   completion_flag_consistent initial_state \<and>
   completion_flag_consistent (reset_for_new_plan st) \<and>
   completion_flag_consistent (conversation turns initial_state) \<and>
   (completion_flag_consistent st \<longrightarrow>
      completion_flag_consistent (process_staged_parameter_clarification env st) \<and>
      completion_flag_consistent (snd (process_staged_clarification_response env st r)) \<and>
      completion_flag_consistent (snd (merge_response env st r)) \<and>
      completion_flag_consistent (conversation turns st))"
proof -
  have main: "parameter_collection_stage (process_staged_parameter_clarification env st) = Completed \<and>
      no_questions_emitted st (process_staged_parameter_clarification env st)"
    if acc: "all_params_accepted env st" and cons: "completion_flag_consistent st"
  proof -
    from accepted_body_completes [OF acc cons]
    obtain st' where r: "process_body env st = Return st'"
        "parameter_collection_stage st' = Completed" "no_questions_emitted st st'"
      by blast
    from r(1) have "process_staged_parameter_clarification env st = st'"
      by (subst process_staged_parameter_clarification.simps) simp
    with r show ?thesis by simp
  qed
  have inv: "completion_flag_consistent (process_staged_parameter_clarification env st) \<and>
      completion_flag_consistent (snd (process_staged_clarification_response env st r)) \<and>
      completion_flag_consistent (snd (merge_response env st r)) \<and>
      completion_flag_consistent (conversation turns st)"
    if "completion_flag_consistent st"
    using that
    by (intro conjI process_consistent response_consistent merge_response_consistent
          conversation_consistent)
  have reach: "completion_flag_consistent (conversation turns initial_state)"
    using initial_consistent by (rule conversation_consistent)
  from main inv reach initial_consistent reset_consistent [of st] show ?thesis
    by blast
qed

text \<open>
  A run of the theorem: a new conversation in which all ten parameters are already
  collected, with collaborators that accept every value. The pass ends at \<open>completed\<close>
  with no question asked.
\<close>

theorem all_accepted_completes_witness:
  "all_params_accepted accepting_env all_collected \<and>
   \<not> clarification_completed all_collected \<and>
   parameter_collection_stage all_collected = NotStarted \<and>
   parameter_collection_stage (process_staged_parameter_clarification accepting_env all_collected)
     = Completed \<and>
   questions_asked (process_staged_parameter_clarification accepting_env all_collected) = [] \<and>
   question_events (process_staged_parameter_clarification accepting_env all_collected) = [] \<and>
   messages (process_staged_parameter_clarification accepting_env all_collected) = [] \<and>
   pending_questions (process_staged_parameter_clarification accepting_env all_collected) = [] \<and>
   \<not> awaiting_clarification (process_staged_parameter_clarification accepting_env all_collected)"
proof -
  have flag: "\<not> clarification_completed all_collected"
    by (simp add: all_collected_def initial_state_def)
  have stage: "parameter_collection_stage all_collected = NotStarted"
    by (simp add: all_collected_def initial_state_def)
  from flag have cons: "completion_flag_consistent all_collected"
    by (simp add: completion_flag_consistent_def)
  have start: "questions_asked all_collected = []" "question_events all_collected = []"
    "messages all_collected = []" "pending_questions all_collected = []"
    "\<not> awaiting_clarification all_collected"
    by (simp_all add: all_collected_def initial_state_def question_events_def)
  from all_accepted_completes [of accepting_env all_collected] all_collected_accepted cons
  have "parameter_collection_stage (process_staged_parameter_clarification accepting_env all_collected)
          = Completed \<and>
        no_questions_emitted all_collected
          (process_staged_parameter_clarification accepting_env all_collected)"
    by blast
  with all_collected_accepted flag stage start show ?thesis
    by (simp add: no_questions_emitted_def)
qed
subsection \<open>The bound on the retries of a stage\<close>

lemma retry_bounded_iff:
  "retry_bounded st \<longleftrightarrow>
     (\<forall>s. retry_count_of st s \<le> max_retries (COLLECTION_STAGES s) \<and>
          times_asked st s \<le>
            retry_count_of st s + (if collecting_rank s \<le> stage_position st then 1 else 0))"
proof -
  have "set stage_order = UNIV"
  proof -
    have "s \<in> set stage_order" for s by (cases s) (simp_all add: stage_order_def)
    then show ?thesis by auto
  qed
  then show ?thesis by (simp add: retry_bounded_def list_all_iff)
qed

lemma same_progress_counts:
  assumes "same_progress st st'"
  shows "retry_count_of st' s = retry_count_of st s" and "times_asked st' s = times_asked st s"
  using assms by (simp_all add: same_progress_def retry_count_of_def times_asked_def)

lemma retry_bounded_mono:
  assumes b: "retry_bounded st" and p: "same_progress st st'"
    and le: "stage_position st \<le> stage_position st'"
  shows "retry_bounded st'"
  unfolding retry_bounded_iff
proof (intro allI conjI)
  fix s
  from b have c: "retry_count_of st s \<le> max_retries (COLLECTION_STAGES s)"
    and a: "times_asked st s \<le>
            retry_count_of st s + (if collecting_rank s \<le> stage_position st then 1 else 0)"
    unfolding retry_bounded_iff by simp_all
  from c show "retry_count_of st' s \<le> max_retries (COLLECTION_STAGES s)"
    by (simp add: same_progress_counts [OF p])
  have "(if collecting_rank s \<le> stage_position st then 1 else 0 :: nat) \<le>
        (if collecting_rank s \<le> stage_position st' then 1 else 0)"
    using le by simp
  with a show "times_asked st' s \<le>
        retry_count_of st' s + (if collecting_rank s \<le> stage_position st' then 1 else 0)"
    unfolding same_progress_counts [OF p] by linarith
qed

lemma same_progress_refl: "same_progress st st"
  by (simp add: same_progress_def)

lemma same_progress_trans:
  "same_progress st st' \<Longrightarrow> same_progress st' st'' \<Longrightarrow> same_progress st st''"
  by (simp add: same_progress_def)

lemma same_progress_send_event: "same_progress st (send_event env ev st)"
  by (simp add: same_progress_def send_event_def)

lemma same_progress_add_message: "same_progress st (add_message r c st)"
  by (simp add: same_progress_def add_message_def)

lemma same_progress_set_stage: "same_progress st (set_collection_stage s st)"
  by (simp add: same_progress_def set_collection_stage_def)

lemma same_progress_should_skip: "same_progress st (snd (should_skip_clarification env st))"
  by (simp add: same_progress_def should_skip_clarification_def should_skip_tail_def Let_def
           split: stage.splits option.splits)

lemma same_progress_load: "same_progress st (load_existing_parameters env st cs)"
  by (simp add: same_progress_def load_existing_parameters_def extract_existing_parameters_def
        Let_def)

lemma same_progress_skip_completion: "same_progress st (skip_completion env st)"
  by (simp add: same_progress_def skip_completion_def set_collection_stage_def)

lemma same_progress_merge: "same_progress st (snd (merge_response env st r))"
  by (simp add: same_progress_def merge_response_def Let_def)

lemma same_progress_begin: "same_progress st (begin_collection env st)"
  by (simp add: same_progress_def begin_collection_def send_event_def set_collection_stage_def)

lemma rank_lt_6: "collecting_rank s < 6"
  by (cases s) simp_all

lemma ask_questions_bounded:
  assumes "ready_to_ask st cs"
  shows "retry_bounded (step_state (ask_questions env st cs rc res))"
proof -
  from assms have stage: "parameter_collection_stage st = Collecting cs"
    and b: "retry_bounded st" and slack: "times_asked st cs \<le> retry_count_of st cs"
    by (simp_all add: ready_to_ask_def)
  let ?qs = "generate_stage_questions env st cs res"
  show ?thesis
  proof (cases "?qs = []")
    case True
    show ?thesis
    proof (cases "get_next_collection_stage st")
      case None
      let ?st' = "(set_collection_stage Completed st)\<lparr>clarification_completed := True\<rparr>"
      have "same_progress st ?st'"
        by (simp add: same_progress_def set_collection_stage_def)
      moreover have "stage_position st \<le> stage_position ?st'"
        using stage rank_lt_6 [of cs] by (simp add: set_collection_stage_def)
      ultimately have "retry_bounded ?st'" by (rule retry_bounded_mono [OF b])
      with True None show ?thesis by (simp add: ask_questions_def)
    next
      case (Some n)
      let ?st' = "set_collection_stage (Collecting n) st"
      from get_next_later [OF Some] have "stage_position st \<le> stage_position ?st'"
        by (simp add: set_collection_stage_def)
      with b same_progress_set_stage have "retry_bounded ?st'"
        by (rule retry_bounded_mono)
      with True Some show ?thesis by (simp add: ask_questions_def)
    qed
  next
    case False
    let ?asked = "st\<lparr>pending_questions := ?qs, current_stage_uncertainty := res,
                      awaiting_clarification := True,
                      questions_asked := questions_asked st @ [(cs, ?qs)]\<rparr>"
    let ?st' = "send_event env (ClarificationQuestions cs ?qs rc)
                  (add_message Assistant (build_stage_clarification_message env ?qs cs rc) ?asked)"
    have result: "ask_questions env st cs rc res = Return ?st'"
      using False by (simp add: ask_questions_def Let_def)
    have counts: "retry_count_of ?st' s = retry_count_of st s" for s
      by (simp add: retry_count_of_def send_event_def add_message_def)
    have asked: "times_asked ?st' s = times_asked st s + (if s = cs then 1 else 0)" for s
      by (simp add: times_asked_def send_event_def add_message_def)
    have pos: "stage_position ?st' = collecting_rank cs" "stage_position st = collecting_rank cs"
      using stage by simp_all
    have "retry_bounded ?st'"
      unfolding retry_bounded_iff
    proof (intro allI conjI)
      fix s
      from b have c: "retry_count_of st s \<le> max_retries (COLLECTION_STAGES s)"
        and a: "times_asked st s \<le>
            retry_count_of st s + (if collecting_rank s \<le> stage_position st then 1 else 0)"
        unfolding retry_bounded_iff by simp_all
      from c show "retry_count_of ?st' s \<le> max_retries (COLLECTION_STAGES s)"
        unfolding counts .
      show "times_asked ?st' s \<le>
            retry_count_of ?st' s + (if collecting_rank s \<le> stage_position ?st' then 1 else 0)"
      proof (cases "s = cs")
        case True
        with slack show ?thesis unfolding counts asked pos by simp
      next
        case False
        with a show ?thesis unfolding counts asked pos by simp
      qed
    qed
    with result show ?thesis by simp
  qed
qed

lemma retry_or_advance_bounded:
  assumes b: "retry_bounded st" and stage: "parameter_collection_stage st = Collecting cs"
  shows "retry_bounded (step_state (retry_or_advance env st cs))"
proof -
  let ?res = "check_stage_uncertainty env st cs"
  let ?rc = "retry_count_of st cs"
  show ?thesis
  proof (cases "?res \<noteq> [] \<and> should_retry_stage ?res cs ?rc")
    case True
    then have lt: "?rc < max_retries (COLLECTION_STAGES cs)"
      by (auto simp: should_retry_stage_def split: if_splits)
    let ?st1 = "increment_stage_retry cs st"
    have counts: "retry_count_of ?st1 s = (if s = cs then ?rc + 1 else retry_count_of st s)" for s
      by (simp add: increment_stage_retry_def retry_count_of_def)
    have asked: "times_asked ?st1 s = times_asked st s" for s
      by (simp add: increment_stage_retry_def times_asked_def)
    have pos: "stage_position ?st1 = stage_position st"
      by (simp add: increment_stage_retry_def)
    from b have a: "times_asked st s \<le>
            retry_count_of st s + (if collecting_rank s \<le> stage_position st then 1 else 0)"
      and c: "retry_count_of st s \<le> max_retries (COLLECTION_STAGES s)" for s
      unfolding retry_bounded_iff by simp_all
    have "retry_bounded ?st1"
      unfolding retry_bounded_iff counts asked pos
    proof (intro allI conjI)
      fix s
      show "(if s = cs then ?rc + 1 else retry_count_of st s) \<le> max_retries (COLLECTION_STAGES s)"
        using c [of s] lt by simp
      show "times_asked st s \<le> (if s = cs then ?rc + 1 else retry_count_of st s) +
              (if collecting_rank s \<le> stage_position st then 1 else 0)"
        using a [of s] by (cases "s = cs"; cases "collecting_rank s \<le> stage_position st") simp_all
    qed
    moreover have "times_asked ?st1 cs \<le> retry_count_of ?st1 cs"
      unfolding counts asked using a [of cs] by (simp split: if_splits)
    moreover have "parameter_collection_stage ?st1 = Collecting cs"
      using stage by (simp add: increment_stage_retry_def)
    ultimately have "ready_to_ask ?st1 cs" by (simp add: ready_to_ask_def)
    from ask_questions_bounded [OF this] True show ?thesis
      by (simp add: retry_or_advance_def Let_def)
  next
    case False
    show ?thesis
    proof (cases "get_next_collection_stage st")
      case None
      let ?params = "apply_smart_defaults env (extracted_parameters st)"
      let ?st' = "send_event env (ClarificationComplete ?params)
                    ((set_collection_stage Completed st)
                       \<lparr>clarification_completed := True, extracted_parameters := ?params\<rparr>)"
      have "same_progress st ?st'"
        by (simp add: same_progress_def send_event_def set_collection_stage_def)
      moreover have "stage_position st \<le> stage_position ?st'"
        using stage rank_lt_6 [of cs] by (simp add: set_collection_stage_def)
      ultimately have "retry_bounded ?st'" by (rule retry_bounded_mono [OF b])
      with False None show ?thesis by (auto simp add: retry_or_advance_def Let_def)
    next
      case (Some n)
      let ?st1 = "set_collection_stage (Collecting n) st"
      from get_next_later [OF Some] stage have later: "collecting_rank cs < collecting_rank n"
        by simp
      then have "stage_position st \<le> stage_position ?st1"
        using stage by (simp add: set_collection_stage_def)
      with b same_progress_set_stage have b1: "retry_bounded ?st1"
        by (rule retry_bounded_mono)
      from b have "times_asked st n \<le>
            retry_count_of st n + (if collecting_rank n \<le> stage_position st then 1 else 0)"
        unfolding retry_bounded_iff by simp
      with later stage have "times_asked st n \<le> retry_count_of st n" by simp
      then have "times_asked ?st1 n \<le> retry_count_of ?st1 n"
        by (simp add: same_progress_counts [OF same_progress_set_stage])
      with b1 have "ready_to_ask ?st1 n"
        by (simp add: ready_to_ask_def set_collection_stage_def)
      from ask_questions_bounded [OF this] False Some show ?thesis
        by (auto simp add: retry_or_advance_def Let_def)
    qed
  qed
qed

lemma skip_branch_bounded:
  assumes b: "retry_bounded st"
  shows "retry_bounded (step_state (skip_branch env st))"
proof (cases "get_next_collection_stage st")
  case None
  have "stage_position st \<le> stage_position (skip_completion env st)"
    using stage_rank_le_6 [of "parameter_collection_stage st"]
    by (simp add: skip_completion_stage)
  with b same_progress_skip_completion have "retry_bounded (skip_completion env st)"
    by (rule retry_bounded_mono)
  with None show ?thesis by (simp add: skip_branch_def)
next
  case (Some n)
  let ?st' = "set_collection_stage (Collecting n) st"
  from get_next_later [OF Some] have "stage_position st \<le> stage_position ?st'"
    by (simp add: set_collection_stage_def)
  with b same_progress_set_stage have r: "retry_bounded ?st'"
    by (rule retry_bounded_mono)
  have "stage_position st \<le> stage_position (skip_completion env st)"
    using stage_rank_le_6 [of "parameter_collection_stage st"]
    by (simp add: skip_completion_stage)
  with b same_progress_skip_completion have "retry_bounded (skip_completion env st)"
    by (rule retry_bounded_mono)
  with r Some show ?thesis by (simp add: skip_branch_def)
qed

lemma process_body_bounded:
  assumes b: "retry_bounded st"
  shows "retry_bounded (step_state (process_body env st))"
proof -
  let ?st1 = "begin_collection env st"
  have b1: "retry_bounded ?st1"
    using b same_progress_begin begin_stage by (rule retry_bounded_mono)
  show ?thesis
  proof (cases "parameter_collection_stage ?st1")
    case NotStarted
    with b1 show ?thesis by (simp add: process_body_def)
  next
    case Completed
    with b1 show ?thesis by (simp add: process_body_def)
  next
    case (Collecting cs)
    obtain skip st2 where sk: "should_skip_clarification env ?st1 = (skip, st2)"
      by (cases "should_skip_clarification env ?st1")
    with should_skip_stage [of env ?st1] same_progress_should_skip [of ?st1 env]
    have s2: "parameter_collection_stage st2 = parameter_collection_stage ?st1"
      and p2: "same_progress ?st1 st2"
      by simp_all
    from b1 p2 have b2: "retry_bounded st2"
      by (rule retry_bounded_mono) (simp add: s2)
    let ?st3 = "load_existing_parameters env st2 cs"
    have "retry_bounded ?st3"
      using b2 same_progress_load by (rule retry_bounded_mono) (simp add: load_stage)
    moreover have "parameter_collection_stage ?st3 = Collecting cs"
      using s2 Collecting by (simp add: load_stage)
    ultimately have "retry_bounded (step_state (retry_or_advance env ?st3 cs))"
      by (rule retry_or_advance_bounded)
    then have c: "retry_bounded (step_state (collect_branch env st2 cs))"
      by (simp add: collect_branch_def)
    have "process_body env st =
          (if skip then skip_branch env st2 else collect_branch env st2 cs)"
      using Collecting sk by (simp add: process_body_def Let_def)
    with skip_branch_bounded [OF b2] c show ?thesis by simp
  qed
qed

lemma process_bounded:
  "retry_bounded st \<Longrightarrow> retry_bounded (process_staged_parameter_clarification env st)"
proof (induction env st rule: process_staged_parameter_clarification.induct)
  case (1 env st)
  show ?case
  proof (cases "process_body env st")
    case (Return st')
    then have "process_staged_parameter_clarification env st = st'"
      by (subst process_staged_parameter_clarification.simps) simp
    with process_body_bounded [OF "1.prems", of env] Return show ?thesis by simp
  next
    case (Recurse st')
    then have "process_staged_parameter_clarification env st =
               process_staged_parameter_clarification env st'"
      by (subst process_staged_parameter_clarification.simps) simp
    moreover from process_body_bounded [OF "1.prems", of env] Recurse
    have "retry_bounded st'" by simp
    ultimately show ?thesis using "1.IH" [OF Recurse] by simp
  qed
qed

lemma confirm_bounded:
  assumes b: "retry_bounded st"
  shows "retry_bounded (snd (confirm_and_continue env st cs parsed))"
proof -
  have "retry_bounded (send_event env ev st)" for ev
    using b same_progress_send_event by (rule retry_bounded_mono) simp
  from process_bounded [OF this] process_bounded [OF b] b
  show ?thesis
    by (simp add: confirm_and_continue_def split: stage.splits)
qed

lemma after_response_bounded:
  assumes b: "retry_bounded st"
  shows "retry_bounded (snd (after_response env st cs pr))"
proof -
  let ?done = "send_event env
          (ClarificationComplete (apply_smart_defaults env (extracted_parameters st)))
          ((set_collection_stage Completed st)
             \<lparr>clarification_completed := True,
              extracted_parameters := apply_smart_defaults env (extracted_parameters st)\<rparr>)"
  have "same_progress st ?done"
    by (simp add: same_progress_def send_event_def set_collection_stage_def)
  moreover have "stage_position st \<le> stage_position ?done"
    using stage_rank_le_6 [of "parameter_collection_stage st"]
    by (simp add: set_collection_stage_def)
  ultimately have "retry_bounded ?done" by (rule retry_bounded_mono [OF b])
  from confirm_bounded [OF this] confirm_bounded [OF b] process_bounded [OF b] b
  show ?thesis
    by (simp add: after_response_def Let_def split: stage.splits)
qed

lemma response_bounded:
  assumes b: "retry_bounded st"
  shows "retry_bounded (snd (process_staged_clarification_response env st r))"
proof -
  obtain pr st1 where m: "merge_response env st r = (pr, st1)"
    by (cases "merge_response env st r")
  with same_progress_merge [of st env r] merge_response_stage [of env st r]
  have "same_progress st st1" "stage_position st \<le> stage_position st1" by simp_all
  with b have "retry_bounded st1" by (rule retry_bounded_mono)
  from after_response_bounded [OF this] have
    "retry_bounded (snd (after_response env st1 (parameter_collection_stage st) pr))" .
  moreover have "retry_bounded (st\<lparr>awaiting_clarification := False\<rparr>)"
    using b by (rule retry_bounded_mono) (simp_all add: same_progress_def)
  ultimately show ?thesis
    using m b by (simp add: process_staged_clarification_response_def)
qed

lemma handle_bounded:
  "retry_bounded st \<Longrightarrow> retry_bounded (snd (handle_parameter_clarification env st))"
  using response_bounded process_bounded
  by (simp add: handle_parameter_clarification_def Let_def)

lemma conversation_bounded:
  "retry_bounded st \<Longrightarrow> retry_bounded (conversation turns st)"
proof (induction turns arbitrary: st)
  case Nil
  then show ?case by simp
next
  case (Cons turn turns)
  obtain env utterance where turn: "turn = (env, utterance)" by (cases turn)
  from Cons.prems same_progress_add_message
  have "retry_bounded (add_message User utterance st)"
    by (rule retry_bounded_mono) simp
  then have "retry_bounded
               (snd (handle_parameter_clarification env (add_message User utterance st)))"
    by (rule handle_bounded)
  from Cons.IH [OF this] show ?case unfolding turn by simp
qed

lemma initial_bounded: "retry_bounded initial_state"
  by (simp add: retry_bounded_iff initial_state_def retry_count_of_def times_asked_def)

subsection \<open>A stage whose retries are used up is left\<close>

lemma exhausted_no_retry:
  "max_retries (COLLECTION_STAGES s) \<le> rc \<Longrightarrow> \<not> should_retry_stage results s rc"
  by (simp add: should_retry_stage_def)

lemma ask_questions_position:
  "stage_position st \<le> stage_position (step_state (ask_questions env st cs rc res))"
proof (cases "ask_questions env st cs rc res")
  case (Return st')
  with ask_questions_return [OF Return] show ?thesis by simp
next
  case (Recurse st')
  with ask_questions_recurse [OF Recurse] show ?thesis by simp
qed

lemma exhausted_retry_or_advance:
  assumes stage: "parameter_collection_stage st = Collecting s"
    and full: "max_retries (COLLECTION_STAGES s) \<le> retry_count_of st s"
  shows "stage_position st < stage_position (step_state (retry_or_advance env st s))"
proof -
  note no_retry = exhausted_no_retry [OF full, of "check_stage_uncertainty env st s"]
  show ?thesis
  proof (cases "get_next_collection_stage st")
    case None
    with no_retry stage rank_lt_6 [of s] show ?thesis
      by (simp add: retry_or_advance_def Let_def set_collection_stage_def)
  next
    case (Some n)
    let ?st1 = "set_collection_stage (Collecting n) st"
    from get_next_later [OF Some] have "stage_position st < stage_position ?st1"
      by (simp add: set_collection_stage_def)
    also have "\<dots> \<le> stage_position (step_state (ask_questions env ?st1 n 0 []))"
      by (rule ask_questions_position)
    finally show ?thesis
      using no_retry Some by (simp add: retry_or_advance_def Let_def)
  qed
qed

lemma exhausted_body:
  assumes stage: "parameter_collection_stage st = Collecting s"
    and full: "max_retries (COLLECTION_STAGES s) \<le> retry_count_of st s"
  shows "stage_position st < stage_position (step_state (process_body env st))"
proof -
  have bg: "begin_collection env st = st"
    using stage by (simp add: begin_collection_def)
  obtain skip st2 where sk: "should_skip_clarification env st = (skip, st2)"
    by (cases "should_skip_clarification env st")
  with should_skip_stage [of env st] same_progress_should_skip [of st env]
  have s2: "parameter_collection_stage st2 = Collecting s" and p2: "same_progress st st2"
    using stage by simp_all
  have body: "process_body env st = (if skip then skip_branch env st2 else collect_branch env st2 s)"
    using stage sk by (simp add: process_body_def bg)
  show ?thesis
  proof (cases skip)
    case True
    have "stage_position st2 < stage_position (step_state (skip_branch env st2))"
    proof (cases "skip_branch env st2")
      case (Recurse st')
      with skip_branch_recurse [OF Recurse] show ?thesis by simp
    next
      case (Return st')
      then have "st' = skip_completion env st2"
        by (auto simp: skip_branch_def split: if_splits option.splits)
      with Return s2 rank_lt_6 [of s] show ?thesis by (simp add: skip_completion_stage)
    qed
    with True body s2 stage show ?thesis by simp
  next
    case False
    let ?st3 = "load_existing_parameters env st2 s"
    have s3: "parameter_collection_stage ?st3 = Collecting s"
      using s2 by (simp add: load_stage)
    have "retry_count_of ?st3 s = retry_count_of st s"
      using same_progress_counts(1) [OF same_progress_load [of st2 env s], of s]
        same_progress_counts(1) [OF p2, of s] by simp
    with full have "max_retries (COLLECTION_STAGES s) \<le> retry_count_of ?st3 s" by simp
    from exhausted_retry_or_advance [OF s3 this, of env] s3 stage False body
    show ?thesis by (simp add: collect_branch_def)
  qed
qed

lemma exhausted_process:
  assumes stage: "parameter_collection_stage st = Collecting s"
    and full: "max_retries (COLLECTION_STAGES s) \<le> retry_count_of st s"
  shows "stage_position st < stage_position (process_staged_parameter_clarification env st)"
proof (cases "process_body env st")
  case (Return st')
  then have "process_staged_parameter_clarification env st = st'"
    by (subst process_staged_parameter_clarification.simps) simp
  with exhausted_body [OF stage full, of env] Return show ?thesis by simp
next
  case (Recurse st')
  then have "process_staged_parameter_clarification env st =
             process_staged_parameter_clarification env st'"
    by (subst process_staged_parameter_clarification.simps) simp
  with exhausted_body [OF stage full, of env] Recurse process_forward [of st' env]
  show ?thesis by simp
qed

subsection \<open>The collected values are kept\<close>

lemma keeps_values_iff:
  "keeps_values st st' \<longleftrightarrow>
     (\<forall>k v. map_of (extracted_parameters st) k = Some v \<longrightarrow>
            map_of (extracted_parameters st') k = Some v)"
proof
  assume k: "keeps_values st st'"
  show "\<forall>k v. map_of (extracted_parameters st) k = Some v \<longrightarrow>
            map_of (extracted_parameters st') k = Some v"
  proof (intro allI impI)
    fix k v assume m: "map_of (extracted_parameters st) k = Some v"
    then have "k \<in> set (map fst (extracted_parameters st))"
      by (metis map_of_eq_None_iff option.distinct(1) set_map)
    with k m show "map_of (extracted_parameters st') k = Some v"
      by (auto simp: keeps_values_def list_all_iff)
  qed
next
  assume a: "\<forall>k v. map_of (extracted_parameters st) k = Some v \<longrightarrow>
            map_of (extracted_parameters st') k = Some v"
  show "keeps_values st st'"
    unfolding keeps_values_def list_all_iff
  proof
    fix k assume "k \<in> set (map fst (extracted_parameters st))"
    then obtain v where "map_of (extracted_parameters st) k = Some v"
      by (metis map_of_eq_None_iff not_None_eq set_map)
    with a show "map_of (extracted_parameters st') k = map_of (extracted_parameters st) k"
      by simp
  qed
qed

lemma keeps_values_same:
  "extracted_parameters st' = extracted_parameters st \<Longrightarrow> keeps_values st st'"
  by (simp add: keeps_values_iff)

lemma keeps_values_empty: "extracted_parameters st = [] \<Longrightarrow> keeps_values st st'"
  by (simp add: keeps_values_iff)

lemma keeps_values_trans:
  "keeps_values st st' \<Longrightarrow> keeps_values st' st'' \<Longrightarrow> keeps_values st st''"
  by (simp add: keeps_values_iff)

lemma update_absent_keeps:
  assumes "map_of d k = Some v" and "\<not> has_key k' d"
  shows "map_of (AList.update k' v' d) k = Some v"
proof -
  from assms(1) have "k \<in> fst ` set d" by (metis map_of_eq_None_iff option.distinct(1))
  with assms(2) have "k \<noteq> k'" by (auto simp: has_key_def)
  with assms(1) show ?thesis by (simp add: update_conv')
qed

lemma fold_defaults_keeps:
  "map_of d k = Some v \<Longrightarrow>
   map_of (fold (\<lambda>param_key d.
                 if \<not> has_key param_key d then
                   (case map_of defaults param_key of
                      Some v \<Rightarrow> AList.update param_key v d
                    | None \<Rightarrow> d)
                 else d) ps d) k = Some v"
proof (induction ps arbitrary: d)
  case Nil
  then show ?case by simp
next
  case (Cons p ps)
  have "map_of (if \<not> has_key p d then
                   (case map_of defaults p of
                      Some v \<Rightarrow> AList.update p v d
                    | None \<Rightarrow> d)
                 else d) k = Some v"
    using Cons.prems by (auto simp: update_absent_keeps split: option.splits)
  from Cons.IH [OF this] show ?case by simp
qed

lemma apply_smart_defaults_keeps:
  assumes "map_of d k = Some v"
  shows "map_of (apply_smart_defaults env d) k = Some v"
proof -
  let ?d1 = "(if \<not> has_key (lit ''coverage_range'') d then
               (case map_of d (lit ''observation_area'') of
                  Some area \<Rightarrow>
                    AList.update (lit ''coverage_range'') (default_coverage_range area) d
                | None \<Rightarrow> d)
             else d)"
  have "map_of ?d1 k = Some v"
    using assms by (auto simp: update_absent_keeps split: option.splits)
  from fold_defaults_keeps [OF this] show ?thesis
    by (simp add: apply_smart_defaults_def Let_def)
qed

lemma keeps_values_defaults:
  "extracted_parameters st' = apply_smart_defaults env (extracted_parameters st) \<Longrightarrow>
   keeps_values st st'"
  by (simp add: keeps_values_iff apply_smart_defaults_keeps)

lemma ask_questions_keeps:
  "keeps_values st (step_state (ask_questions env st cs rc res))"
  by (rule keeps_values_same)
     (simp add: ask_questions_def Let_def set_collection_stage_def send_event_def add_message_def
           split: option.splits)

lemma ask_questions_flag:
  "ask_questions env st cs rc res = Recurse st' \<Longrightarrow>
   clarification_completed st' = clarification_completed st"
  by (auto simp: ask_questions_def Let_def set_collection_stage_def split: if_splits option.splits)

lemma retry_or_advance_keeps:
  "keeps_values st (step_state (retry_or_advance env st cs))"
proof -
  have a: "keeps_values st (step_state (ask_questions env (increment_stage_retry cs st) cs rc res))"
    for rc res
    using ask_questions_keeps [of "increment_stage_retry cs st" env cs rc res]
    by (simp add: keeps_values_iff increment_stage_retry_def)
  have b: "keeps_values st (step_state (ask_questions env (set_collection_stage (Collecting n) st) n 0 []))"
    for n
    using ask_questions_keeps [of "set_collection_stage (Collecting n) st" env n 0 "[]"]
    by (simp add: keeps_values_iff set_collection_stage_def)
  let ?params = "apply_smart_defaults env (extracted_parameters st)"
  have c: "keeps_values st (send_event env (ClarificationComplete ?params)
                    ((set_collection_stage Completed st)
                       \<lparr>clarification_completed := True, extracted_parameters := ?params\<rparr>))"
    by (rule keeps_values_defaults [of _ env]) (simp add: send_event_def set_collection_stage_def)
  from a b c show ?thesis
    by (simp add: retry_or_advance_def Let_def split: option.splits)
qed

lemma retry_or_advance_flag:
  assumes "retry_or_advance env st cs = Recurse st'"
  shows "clarification_completed st' = clarification_completed st"
proof -
  from assms consider
      (retry) "ask_questions env (increment_stage_retry cs st) cs (retry_count_of st cs)
                 (check_stage_uncertainty env st cs) = Recurse st'"
    | (advance) n where
        "ask_questions env (set_collection_stage (Collecting n) st) n 0 [] = Recurse st'"
    unfolding retry_or_advance_def Let_def
    by (auto split: if_splits option.splits)
  then show ?thesis
  proof cases
    case retry
    from ask_questions_flag [OF this] show ?thesis by (simp add: increment_stage_retry_def)
  next
    case advance
    from ask_questions_flag [OF this] show ?thesis by (simp add: set_collection_stage_def)
  qed
qed

lemma load_keeps: "keeps_values st (load_existing_parameters env st cs)"
proof (cases "extracted_parameters st = []")
  case True
  then show ?thesis by (rule keeps_values_empty)
next
  case False
  then show ?thesis by (simp add: load_existing_parameters_def keeps_values_iff)
qed

lemma skip_branch_keeps: "keeps_values st (step_state (skip_branch env st))"
proof -
  have "keeps_values st (skip_completion env st)"
    by (rule keeps_values_defaults [of _ env]) (simp add: skip_completion_def)
  moreover have "keeps_values st (set_collection_stage (Collecting n) st)" for n
    by (rule keeps_values_same) (simp add: set_collection_stage_def)
  ultimately show ?thesis
    by (simp add: skip_branch_def split: option.splits)
qed

lemma skip_branch_flag:
  "skip_branch env st = Recurse st' \<Longrightarrow> clarification_completed st' = clarification_completed st"
  by (auto simp: skip_branch_def set_collection_stage_def split: if_splits option.splits)

lemma process_body_keeps:
  assumes flag: "\<not> clarification_completed st"
  shows "keeps_values st (step_state (process_body env st))"
    and "process_body env st = Recurse st' \<Longrightarrow> \<not> clarification_completed st'"
proof -
  let ?st1 = "begin_collection env st"
  have flag1: "\<not> clarification_completed ?st1"
    using flag by (simp add: begin_collection_def set_collection_stage_def)
  have k1: "keeps_values st ?st1"
    by (rule keeps_values_same) (simp add: begin_collection_def send_event_def set_collection_stage_def)
  have "keeps_values st (step_state (process_body env st)) \<and>
        (process_body env st = Recurse st' \<longrightarrow> \<not> clarification_completed st')"
  proof (cases "parameter_collection_stage ?st1")
    case NotStarted
    with k1 show ?thesis by (simp add: process_body_def)
  next
    case Completed
    with k1 show ?thesis by (simp add: process_body_def)
  next
    case (Collecting cs)
    obtain skip st2 where sk: "should_skip_clarification env ?st1 = (skip, st2)"
      by (cases "should_skip_clarification env ?st1")
    with should_skip_unchanged [OF flag1, of env] have st2: "st2 = ?st1" by simp
    have body: "process_body env st =
        (if skip then skip_branch env ?st1 else collect_branch env ?st1 cs)"
      using Collecting sk st2 by (simp add: process_body_def Let_def)
    show ?thesis
    proof (cases skip)
      case True
      with body keeps_values_trans [OF k1 skip_branch_keeps [of ?st1 env]]
        skip_branch_flag [of env ?st1 st'] flag1
      show ?thesis by auto
    next
      case False
      let ?st3 = "load_existing_parameters env ?st1 cs"
      have "keeps_values st (step_state (retry_or_advance env ?st3 cs))"
        using keeps_values_trans [OF k1 keeps_values_trans [OF load_keeps retry_or_advance_keeps]] .
      moreover have "\<not> clarification_completed st'"
        if "retry_or_advance env ?st3 cs = Recurse st'"
        using retry_or_advance_flag [OF that] load_flag [OF flag1, of env cs] by simp
      ultimately show ?thesis using False body by (auto simp: collect_branch_def)
    qed
  qed
  then show "keeps_values st (step_state (process_body env st))"
    and "process_body env st = Recurse st' \<Longrightarrow> \<not> clarification_completed st'"
    by simp_all
qed

lemma process_keeps:
  "\<not> clarification_completed st \<Longrightarrow>
   keeps_values st (process_staged_parameter_clarification env st)"
proof (induction env st rule: process_staged_parameter_clarification.induct)
  case (1 env st)
  show ?case
  proof (cases "process_body env st")
    case (Return st')
    then have "process_staged_parameter_clarification env st = st'"
      by (subst process_staged_parameter_clarification.simps) simp
    with process_body_keeps(1) [OF "1.prems", of env] Return show ?thesis by simp
  next
    case (Recurse st')
    then have eq: "process_staged_parameter_clarification env st =
               process_staged_parameter_clarification env st'"
      by (subst process_staged_parameter_clarification.simps) simp
    from process_body_keeps(1) [OF "1.prems", of env] Recurse
    have k: "keeps_values st st'" by simp
    from process_body_keeps(2) [OF "1.prems" Recurse]
    have "\<not> clarification_completed st'" .
    from "1.IH" [OF Recurse this] k show ?thesis
      unfolding eq by (rule keeps_values_trans [rotated])
  qed
qed

end
